theory Spec2Isabelle
  imports Main "HOL-Library.Sublist" "HOL-Library.Word" "HOL-Library.AList"
begin

chapter \<open>The program\<close>

section \<open>Go strings\<close>

text \<open>
  A Go \<^verbatim>\<open>string\<close> is a sequence of bytes, so it is a \<^typ>\<open>string\<close> here
  (a list of 8-bit characters). The functions of package \<^verbatim>\<open>strings\<close> that the
  program calls are written out below as the standard library documents them.
\<close>

definition quote :: char where
  "quote = CHR 0x27"

text \<open>
  \<^verbatim>\<open>unicode.IsSpace\<close> holds of the runes U+0009 to U+000D, U+0020, U+0085, U+00A0,
  U+1680, U+2000 to U+200A, U+2028, U+2029, U+202F, U+205F and U+3000. The list gives
  the UTF-8 encoding of each. Go decodes only shortest-form encodings, and an invalid
  byte decodes to U+FFFD, which is no space: the first (last) rune of a string is a
  space exactly when one of these encodings is a prefix (suffix) of the string.
\<close>

definition spaceRunes :: "string list" where
  "spaceRunes =
     [[CHR 0x09], [CHR 0x0A], [CHR 0x0B], [CHR 0x0C], [CHR 0x0D], [CHR 0x20],
      [CHR 0xC2, CHR 0x85], [CHR 0xC2, CHR 0xA0],
      [CHR 0xE1, CHR 0x9A, CHR 0x80],
      [CHR 0xE2, CHR 0x80, CHR 0x80], [CHR 0xE2, CHR 0x80, CHR 0x81],
      [CHR 0xE2, CHR 0x80, CHR 0x82], [CHR 0xE2, CHR 0x80, CHR 0x83],
      [CHR 0xE2, CHR 0x80, CHR 0x84], [CHR 0xE2, CHR 0x80, CHR 0x85],
      [CHR 0xE2, CHR 0x80, CHR 0x86], [CHR 0xE2, CHR 0x80, CHR 0x87],
      [CHR 0xE2, CHR 0x80, CHR 0x88], [CHR 0xE2, CHR 0x80, CHR 0x89],
      [CHR 0xE2, CHR 0x80, CHR 0x8A],
      [CHR 0xE2, CHR 0x80, CHR 0xA8], [CHR 0xE2, CHR 0x80, CHR 0xA9],
      [CHR 0xE2, CHR 0x80, CHR 0xAF],
      [CHR 0xE2, CHR 0x81, CHR 0x9F],
      [CHR 0xE3, CHR 0x80, CHR 0x80]]"

definition leadingSpace :: "string \<Rightarrow> string option" where
  "leadingSpace s = find (\<lambda>e. prefix e s) spaceRunes"

definition trailingSpace :: "string \<Rightarrow> string option" where
  "trailingSpace s = find (\<lambda>e. suffix e s) spaceRunes"

lemma find_SomeD: "find P xs = Some x \<Longrightarrow> x \<in> set xs \<and> P x"
  by (induction xs) (auto split: if_splits)

lemma spaceRunes_nonempty: "e \<in> set spaceRunes \<Longrightarrow> e \<noteq> []"
  by (auto simp: spaceRunes_def)

lemma leadingSpaceD:
  "leadingSpace s = Some e \<Longrightarrow> e \<in> set spaceRunes \<and> e \<noteq> [] \<and> prefix e s"
  unfolding leadingSpace_def using spaceRunes_nonempty by (blast dest: find_SomeD)

lemma trailingSpaceD:
  "trailingSpace s = Some e \<Longrightarrow> e \<in> set spaceRunes \<and> e \<noteq> [] \<and> suffix e s"
  unfolding trailingSpace_def using spaceRunes_nonempty by (blast dest: find_SomeD)

text \<open>\<^verbatim>\<open>strings.TrimLeftFunc(s, unicode.IsSpace)\<close>: drop space runes from the front.\<close>

function TrimLeftSpace :: "string \<Rightarrow> string" where
  "TrimLeftSpace s =
     (case leadingSpace s of
        None \<Rightarrow> s
      | Some e \<Rightarrow> TrimLeftSpace (drop (length e) s))"
  by pat_completeness auto
termination
proof (relation "measure length")
  fix s e assume "leadingSpace s = Some e"
  then have "e \<noteq> []" "prefix e s" by (auto dest: leadingSpaceD)
  then show "(drop (length e) s, s) \<in> measure length"
    by (auto simp: prefix_def)
qed simp

text \<open>\<^verbatim>\<open>strings.TrimRightFunc(s, unicode.IsSpace)\<close>: drop space runes from the back.\<close>

function TrimRightSpace :: "string \<Rightarrow> string" where
  "TrimRightSpace s =
     (case trailingSpace s of
        None \<Rightarrow> s
      | Some e \<Rightarrow> TrimRightSpace (take (length s - length e) s))"
  by pat_completeness auto
termination
proof (relation "measure length")
  fix s e assume "trailingSpace s = Some e"
  then have "e \<noteq> []" "suffix e s" by (auto dest: trailingSpaceD)
  then show "(take (length s - length e) s, s) \<in> measure length"
    by (auto simp: suffix_def)
qed simp

declare TrimLeftSpace.simps [simp del] TrimRightSpace.simps [simp del]

text \<open>\<^verbatim>\<open>strings.TrimSpace\<close>: all leading and trailing white space removed.\<close>

definition TrimSpace :: "string \<Rightarrow> string" where
  "TrimSpace s = TrimRightSpace (TrimLeftSpace s)"

text \<open>
  \<^verbatim>\<open>strings.TrimLeft(s, cutset)\<close> and \<^verbatim>\<open>strings.TrimRight(s, cutset)\<close> for a cutset
  of one ASCII byte, the only way the program calls them: every leading (trailing)
  occurrence of the byte is removed.
\<close>

definition TrimLeft :: "string \<Rightarrow> char \<Rightarrow> string" where
  "TrimLeft s c = dropWhile (\<lambda>x. x = c) s"

definition TrimRight :: "string \<Rightarrow> char \<Rightarrow> string" where
  "TrimRight s c = rev (dropWhile (\<lambda>x. x = c) (rev s))"

section \<open>Annotation values\<close>

text \<open>
  \<^verbatim>\<open>cleanAnnotationValue\<close>, defined with the same body in package activator
  (index.go) and in package zeroscaler.
\<close>

definition cleanAnnotationValue :: "string \<Rightarrow> string" where
  "cleanAnnotationValue rawValue =
     (let value0 = TrimSpace rawValue;
          value1 = TrimLeft value0 quote;
          value2 = TrimRight value1 quote
      in value2)"

text \<open>
  The cleaning as the specification words it: trim white space, then strip a single
  leading and a single trailing single-quote, leaving further quotes in place.
\<close>

definition stripOneLeading :: "char \<Rightarrow> string \<Rightarrow> string" where
  "stripOneLeading c s = (case s of [] \<Rightarrow> [] | x # xs \<Rightarrow> if x = c then xs else s)"

definition stripOneTrailing :: "char \<Rightarrow> string \<Rightarrow> string" where
  "stripOneTrailing c s = (if s \<noteq> [] \<and> last s = c then butlast s else s)"

definition specCleanSingleQuote :: "string \<Rightarrow> string" where
  "specCleanSingleQuote rawValue =
     stripOneTrailing quote (stripOneLeading quote (TrimSpace rawValue))"

section \<open>Proxy sidecar\<close>

text \<open>\<^verbatim>\<open>strings.Contains(s, substr)\<close>: substr occurs in s as a contiguous run of bytes.\<close>

fun Contains :: "string \<Rightarrow> string \<Rightarrow> bool" where
  "Contains [] substr = (substr = [])"
| "Contains (c # cs) substr = (prefix substr (c # cs) \<or> Contains cs substr)"

text \<open>
  Of \<^verbatim>\<open>http.Request\<close> the handler reads the URL (a pointer, nil as \<open>None\<close>), of the
  URL its path, and the header, a map from canonical header names to the list of values.
\<close>

record url =
  Path :: string

record request =
  URL :: "url option"
  Header :: "string \<rightharpoonup> string list"

text \<open>\<^verbatim>\<open>Header.Get\<close>: the first value of the header, the empty string when there is none.\<close>

definition headerGet :: "(string \<rightharpoonup> string list) \<Rightarrow> string \<Rightarrow> string" where
  "headerGet h key =
     (case h key of
        None \<Rightarrow> []
      | Some [] \<Rightarrow> []
      | Some (v # _) \<Rightarrow> v)"

text \<open>
  \<^verbatim>\<open>singlePortProxy\<close>: \<open>requestCount\<close> is the \<^verbatim>\<open>uint64\<close> behind the pointer, and
  \<open>ignoredPaths\<close> the key set of the \<^verbatim>\<open>map[string]struct{}\<close>. The other fields (server,
  reverse proxy, port) play no part in the counting.
\<close>

record singlePortProxy =
  requestCount :: "64 word"
  ignoredPaths :: "string set"

definition isKubeProbe :: "request \<Rightarrow> bool" where
  "isKubeProbe r = Contains (headerGet (Header r) ''User-Agent'') ''kube-probe''"

definition isIgnoredPath :: "singlePortProxy \<Rightarrow> request \<Rightarrow> bool" where
  "isIgnoredPath s r =
     (case URL r of
        None \<Rightarrow> False
      | Some u \<Rightarrow> if length (Path u) = 0 then False else Path u \<in> ignoredPaths s)"

definition isIgnoredRequest :: "singlePortProxy \<Rightarrow> request \<Rightarrow> bool" where
  "isIgnoredRequest s r = (isIgnoredPath s r \<or> isKubeProbe r)"

text \<open>
  \<^verbatim>\<open>handleRequest\<close>: \<^verbatim>\<open>atomic.AddUint64(s.requestCount, 1)\<close> unless the request is
  ignored. The addition wraps around at \<open>2 ^ 64\<close>, as \<^typ>\<open>64 word\<close> does. Logging,
  the tracing attribute and the forwarding of the request do not touch the counter.
\<close>

definition handleRequest :: "singlePortProxy \<Rightarrow> request \<Rightarrow> singlePortProxy" where
  "handleRequest s r =
     (if isIgnoredRequest s r then s
      else s\<lparr>requestCount := requestCount s + 1\<rparr>)"

text \<open>
  The increments are atomic, so concurrent requests update the counter as if they were
  handled one after the other in some order: a run is the list of requests in that order.
\<close>

fun handleRequests :: "singlePortProxy \<Rightarrow> request list \<Rightarrow> singlePortProxy" where
  "handleRequests s [] = s"
| "handleRequests s (r # rs) = handleRequests (handleRequest s r) rs"

text \<open>
  Ignored requests as the specification words them: the URL path is in \<open>ignoredPaths\<close>,
  or the User-Agent header contains \<open>kube-probe\<close>.
\<close>

definition specIgnored :: "singlePortProxy \<Rightarrow> request \<Rightarrow> bool" where
  "specIgnored s r =
     ((case URL r of None \<Rightarrow> False | Some u \<Rightarrow> Path u \<in> ignoredPaths s)
      \<or> sublist ''kube-probe'' (headerGet (Header r) ''User-Agent''))"

definition specCountedRequests :: "singlePortProxy \<Rightarrow> request list \<Rightarrow> nat" where
  "specCountedRequests s rs = length (filter (\<lambda>r. \<not> specIgnored s r) rs)"

text \<open>The number of requests of a run that the program does not ignore.\<close>

definition countedRequests :: "singlePortProxy \<Rightarrow> request list \<Rightarrow> nat" where
  "countedRequests s rs = length (filter (\<lambda>r. \<not> isIgnoredRequest s r) rs)"

section \<open>More of package strings\<close>

text \<open>
  \<^verbatim>\<open>strings.Split(s, sep)\<close> for a separator of one byte: the pieces of \<open>s\<close> between
  the occurrences of the separator, one piece more than there are occurrences.
\<close>

fun Split :: "string \<Rightarrow> char \<Rightarrow> string list" where
  "Split [] sep = [[]]"
| "Split (c # cs) sep =
     (if c = sep then [] # Split cs sep
      else (case Split cs sep of
              [] \<Rightarrow> [[c]]
            | piece # pieces \<Rightarrow> (c # piece) # pieces))"

text \<open>
  \<^verbatim>\<open>strings.SplitN(s, sep, 2)\<close> for a separator of one byte: \<open>s\<close> alone when the
  separator does not occur, else the part before its first occurrence and the part after.
\<close>

definition SplitN2 :: "string \<Rightarrow> char \<Rightarrow> string list" where
  "SplitN2 s sep =
     (if sep \<in> set s
      then [takeWhile (\<lambda>c. c \<noteq> sep) s, drop 1 (dropWhile (\<lambda>c. c \<noteq> sep) s)]
      else [s])"

text \<open>
  \<^verbatim>\<open>strings.ToLower\<close> on the ASCII letters. Go maps the runes outside ASCII by their
  Unicode case, here they are left as they are: the program only compares the result
  with \<open>deployment\<close> and \<open>statefulset\<close>, and the only runes outside ASCII that Go maps
  to an ASCII letter are U+0130 (to i) and U+212A (to k), letters of neither word.
\<close>

definition toLowerByte :: "char \<Rightarrow> char" where
  "toLowerByte c =
     (case map_of (zip ''ABCDEFGHIJKLMNOPQRSTUVWXYZ'' ''abcdefghijklmnopqrstuvwxyz'') c of
        None \<Rightarrow> c
      | Some l \<Rightarrow> l)"

definition ToLower :: "string \<Rightarrow> string" where
  "ToLower s = map toLowerByte s"

section \<open>Zeroscaler: scaling to zero\<close>

datatype panic = IndexOutOfRange

text \<open>
  The calls on the Kubernetes client and on the logger, in the order the program makes
  them. \<open>Patch\<close> and \<open>Get\<close> name the typed client (\<^verbatim>\<open>AppsV1().Deployments\<close> or
  \<^verbatim>\<open>AppsV1().StatefulSets\<close>), the namespace and the object, and record whether the call
  returned without error; \<open>Patch\<close> carries the JSON patch operations sent.
\<close>

datatype api = Deployments | StatefulSets

record patchOperation =
  Op :: string
  PatchPath :: string
  PatchValue :: int

datatype event =
    Patch api string string "patchOperation list" bool
  | Get api string string bool
  | Infof string "string list"
  | Errorf string "string list"

text \<open>
  The client is outside the program. Whether a patch succeeds may depend on everything
  that happened before (the events so far); a collector's scale-down reads the workload
  once, so what \<open>Get\<close> returns is a function of the object: \<open>None\<close> for an error, else
  the annotations of the workload (a nil map reads like an empty one).
\<close>

record kubeClient =
  patchOK :: "event list \<Rightarrow> api \<Rightarrow> string \<Rightarrow> string \<Rightarrow> bool"
  getAnnotations :: "api \<Rightarrow> string \<Rightarrow> string \<Rightarrow> (string \<rightharpoonup> string) option"

text \<open>The package-level \<^verbatim>\<open>scaleToZero\<close>; \<open>tr\<close> is the events so far.\<close>

definition scaleToZero ::
    "kubeClient \<Rightarrow> event list \<Rightarrow> string \<Rightarrow> string \<Rightarrow> string \<Rightarrow> event list" where
  "scaleToZero kubeClient tr kind namespace name =
     (let tr1 = tr @ [Infof ''Scale to zero starting for %s %s in namespace %s''
                        [kind, name, namespace]];
          patches = [\<lparr>Op = ''replace'', PatchPath = ''/spec/replicas'', PatchValue = 0\<rparr>];
          failed = (\<lambda>t. t @ [Errorf ''Error scaling %s %s in namespace %s to zero: %s''
                                [kind, name, namespace]]);
          succeeded = (\<lambda>t. t @ [Infof ''Scaled %s %s in namespace %s to zero''
                                   [kind, name, namespace]])
      in if ToLower kind = ''deployment'' then
           (let ok = patchOK kubeClient tr1 Deployments namespace name;
                tr2 = tr1 @ [Patch Deployments namespace name patches ok]
            in if \<not> ok then failed tr2 else succeeded tr2)
         else if ToLower kind = ''statefulset'' then
           (let ok = patchOK kubeClient tr1 StatefulSets namespace name;
                tr2 = tr1 @ [Patch StatefulSets namespace name patches ok]
            in if \<not> ok then failed tr2 else succeeded tr2)
         else failed tr1)"

text \<open>
  The loop over the entries of the dependencies annotation in the method
  \<^verbatim>\<open>scaleToZero\<close> of the collector. \<^verbatim>\<open>elems[1]\<close> is read without a check of the
  length: an entry with no colon, or with no slash after the colon, panics. The result
  is the events up to the end or up to the panic.
\<close>

fun scaleDependencies ::
    "kubeClient \<Rightarrow> string list \<Rightarrow> event list \<Rightarrow> event list \<times> panic option" where
  "scaleDependencies kubeClient [] tr = (tr, None)"
| "scaleDependencies kubeClient (dependency # rest) tr =
     (if length dependency = 0 then scaleDependencies kubeClient rest tr
      else
        (let elems = SplitN2 dependency (CHR '':'');
             depKind = elems ! 0
         in if \<not> 1 < length elems then (tr, Some IndexOutOfRange)
            else
              (let elems' = SplitN2 (elems ! 1) (CHR ''/'');
                   depNamespace = elems' ! 0
               in if \<not> 1 < length elems' then (tr, Some IndexOutOfRange)
                  else
                    (let depName = elems' ! 1
                     in scaleDependencies kubeClient rest
                          (scaleToZero kubeClient tr depKind depNamespace depName)))))"

record metricsCollectorConfig =
  appKind :: string
  appName :: string
  appNamespace :: string

definition dependenciesAnnotation :: "(string \<rightharpoonup> string) \<Rightarrow> string" where
  "dependenciesAnnotation annotations =
     cleanAnnotationValue
       (case annotations ''osiris.dm.gg/dependencies'' of None \<Rightarrow> [] | Some v \<Rightarrow> v)"

text \<open>
  The method \<^verbatim>\<open>scaleToZero\<close> of \<^verbatim>\<open>metricsCollector\<close>. First its \<^verbatim>\<open>switch\<close>,
  which reads the workload for its dependencies annotation: the events it adds, and the
  cleaned annotation value, or \<open>None\<close> where the method returns after a failed \<open>Get\<close>.
  For a kind that is neither a deployment nor a statefulset, nothing is read and the
  value stays the empty string.
\<close>

definition retrieveDependencies ::
    "kubeClient \<Rightarrow> metricsCollectorConfig \<Rightarrow> event list \<times> string option" where
  "retrieveDependencies kubeClient config =
     (if ToLower (appKind config) = ''deployment'' then
        (case getAnnotations kubeClient Deployments (appNamespace config) (appName config) of
           None \<Rightarrow>
             ([Get Deployments (appNamespace config) (appName config) False,
               Errorf ''Error retrieving deployment %s in namespace %s: %s''
                 [appName config, appNamespace config]], None)
         | Some annotations \<Rightarrow>
             ([Get Deployments (appNamespace config) (appName config) True],
              Some (dependenciesAnnotation annotations)))
      else if ToLower (appKind config) = ''statefulset'' then
        (case getAnnotations kubeClient StatefulSets (appNamespace config) (appName config) of
           None \<Rightarrow>
             ([Get StatefulSets (appNamespace config) (appName config) False,
               Errorf ''Error retrieving statefulset %s in namespace %s: %s''
                 [appName config, appNamespace config]], None)
         | Some annotations \<Rightarrow>
             ([Get StatefulSets (appNamespace config) (appName config) True],
              Some (dependenciesAnnotation annotations)))
      else ([], Some []))"

definition collectorScaleToZero ::
    "kubeClient \<Rightarrow> metricsCollectorConfig \<Rightarrow> event list \<Rightarrow> event list \<times> panic option" where
  "collectorScaleToZero kubeClient config tr =
     (let tr1 = scaleToZero kubeClient tr (appKind config) (appNamespace config) (appName config);
          (evs, dependenciesAnnotationValue) = retrieveDependencies kubeClient config
      in case dependenciesAnnotationValue of
           None \<Rightarrow> (tr1 @ evs, None)
         | Some v \<Rightarrow> scaleDependencies kubeClient (Split v (CHR '','')) (tr1 @ evs))"

text \<open>
  The objects patched, in order; the patch operations sent; and whether every failed
  patch is followed at once by an error log.
\<close>

fun patchTargets :: "event list \<Rightarrow> (api \<times> string \<times> string) list" where
  "patchTargets [] = []"
| "patchTargets (Patch a namespace name ops ok # tr) = (a, namespace, name) # patchTargets tr"
| "patchTargets (e # tr) = patchTargets tr"

fun patchBodies :: "event list \<Rightarrow> patchOperation list list" where
  "patchBodies [] = []"
| "patchBodies (Patch a namespace name ops ok # tr) = ops # patchBodies tr"
| "patchBodies (e # tr) = patchBodies tr"

fun isErrorf :: "event \<Rightarrow> bool" where
  "isErrorf (Errorf fmt args) = True"
| "isErrorf e = False"

fun failedPatch :: "event \<Rightarrow> bool" where
  "failedPatch (Patch a namespace name ops ok) = (\<not> ok)"
| "failedPatch e = False"

fun failuresLogged :: "event list \<Rightarrow> bool" where
  "failuresLogged [] = True"
| "failuresLogged [e] = (\<not> failedPatch e)"
| "failuresLogged (e # e' # tr) =
     ((if failedPatch e then isErrorf e' else True) \<and> failuresLogged (e' # tr))"

definition mainTarget :: "metricsCollectorConfig \<Rightarrow> (api \<times> string \<times> string) list" where
  "mainTarget config =
     (if ToLower (appKind config) = ''deployment''
        then [(Deployments, appNamespace config, appName config)]
      else if ToLower (appKind config) = ''statefulset''
        then [(StatefulSets, appNamespace config, appName config)]
      else [])"

definition kindTarget :: "string \<Rightarrow> string \<Rightarrow> string \<Rightarrow> (api \<times> string \<times> string) list" where
  "kindTarget kind namespace name =
     (if ToLower kind = ''deployment'' then [(Deployments, namespace, name)]
      else if ToLower kind = ''statefulset'' then [(StatefulSets, namespace, name)]
      else [])"

text \<open>
  What a dependency entry \<open>kind:namespace/name\<close> declares: the entry has its two
  separators, and the object it names is the one to patch (none for an unknown kind).
\<close>

definition afterColon :: "string \<Rightarrow> string" where
  "afterColon d = drop 1 (dropWhile (\<lambda>c. c \<noteq> CHR '':'') d)"

definition wellFormedEntry :: "string \<Rightarrow> bool" where
  "wellFormedEntry d = (CHR '':'' \<in> set d \<and> CHR ''/'' \<in> set (afterColon d))"

definition entryTarget :: "string \<Rightarrow> (api \<times> string \<times> string) list" where
  "entryTarget d =
     kindTarget (takeWhile (\<lambda>c. c \<noteq> CHR '':'') d)
       (takeWhile (\<lambda>c. c \<noteq> CHR ''/'') (afterColon d))
       (drop 1 (dropWhile (\<lambda>c. c \<noteq> CHR ''/'') (afterColon d)))"

text \<open>
  Scenario 6 of the specification, with one dependency more: the deployment \<open>app\<close> in
  namespace \<open>ns\<close> declares the dependencies \<open>deployment:ns/db\<close> and
  \<open>statefulset:ns/cache\<close>, and every patch of \<open>app\<close> and of \<open>db\<close> fails.
\<close>

definition failingClient :: kubeClient where
  "failingClient =
     \<lparr>patchOK = (\<lambda>tr a namespace name. name \<noteq> ''app'' \<and> name \<noteq> ''db''),
      getAnnotations = (\<lambda>a namespace name.
        Some [''osiris.dm.gg/dependencies'' \<mapsto> ''deployment:ns/db,statefulset:ns/cache''])\<rparr>"

definition appConfig :: metricsCollectorConfig where
  "appConfig = \<lparr>appKind = ''Deployment'', appName = ''app'', appNamespace = ''ns''\<rparr>"

section \<open>Zeroscaler: the collector loop\<close>

text \<open>
  Modelled from the spec: the scraper is not among the sources. The specification gives
  \<^verbatim>\<open>Scrape\<close> the result \<open>{proxyID, requestCount}\<close> or nil (here \<open>None\<close>), any error
  yielding nil; the loop reads the two fields.
\<close>

record proxyRequestCount =
  ProxyID :: string
  RequestCount :: "64 word"

text \<open>
  The variables of \<^verbatim>\<open>collectMetrics\<close> that live across the ticks: the map
  \<open>requestCountsByProxy\<close> (an association list with one entry for each key) and
  \<open>lastTotalRequestCount\<close>. Both are declared before the loop; neither is reset in it.
\<close>

record collector =
  requestCountsByProxy :: "(string \<times> 64 word) list"
  lastTotalRequestCount :: "64 word"

definition newCollector :: collector where
  "newCollector = \<lparr>requestCountsByProxy = [], lastTotalRequestCount = 0\<rparr>"

text \<open>
  What a tick meets: the results of the scrapes of the pods in \<open>appPods\<close> when the tick
  starts, in the order in which the goroutines finish; whether the three-second timer
  has fired and whether the context is done when the inner \<^verbatim>\<open>select\<close> runs; and
  which of the two cases the \<^verbatim>\<open>select\<close> takes when both are ready (Go picks one at
  random).
\<close>

record tickInput =
  scrapes :: "proxyRequestCount option list"
  timerFired :: bool
  ctxDone :: bool
  selectPrefersTimer :: bool

datatype selected = TimerC | CtxDone | Default

definition selectAfterScrapes :: "tickInput \<Rightarrow> selected" where
  "selectAfterScrapes i =
     (if timerFired i \<and> ctxDone i then (if selectPrefersTimer i then TimerC else CtxDone)
      else if timerFired i then TimerC
      else if ctxDone i then CtxDone
      else Default)"

text \<open>
  The bodies of the scrape goroutines: \<open>mustNotDecide\<close> and the map after them. The
  writes to the map are under the lock, one after the other; the writes to
  \<open>mustNotDecide\<close> all store \<open>true\<close>, and the loop reads the flag after \<^verbatim>\<open>Wait\<close> only.
\<close>

fun collectScrapes ::
    "proxyRequestCount option list \<Rightarrow> bool \<times> (string \<times> 64 word) list
       \<Rightarrow> bool \<times> (string \<times> 64 word) list" where
  "collectScrapes [] acc = acc"
| "collectScrapes (None # rest) (mustNotDecide, counts) = collectScrapes rest (True, counts)"
| "collectScrapes (Some prc # rest) (mustNotDecide, counts) =
     collectScrapes rest (mustNotDecide, AList.update (ProxyID prc) (RequestCount prc) counts)"

text \<open>The sum over the map, in \<^verbatim>\<open>uint64\<close>.\<close>

definition sumCounts :: "(string \<times> 64 word) list \<Rightarrow> 64 word" where
  "sumCounts counts = sum_list (map snd counts)"

record tickResult =
  collectorAfter :: collector
  totalRequestCount :: "64 word"
  events :: "event list"
  panicked :: "panic option"
  returned :: bool

text \<open>One pass through the \<^verbatim>\<open>case <-ticker.C\<close> branch of the loop.\<close>

definition tick ::
    "kubeClient \<Rightarrow> metricsCollectorConfig \<Rightarrow> collector \<Rightarrow> tickInput \<Rightarrow> tickResult" where
  "tick kubeClient config c i =
     (let (mustNotDecide0, counts) = collectScrapes (scrapes i) (False, requestCountsByProxy c);
          total = sumCounts counts;
          sel = selectAfterScrapes i
      in if sel = CtxDone then
           \<lparr>collectorAfter = c\<lparr>requestCountsByProxy := counts\<rparr>,
            totalRequestCount = total, events = [], panicked = None, returned = True\<rparr>
         else
           (let mustNotDecide = (if sel = TimerC then True else mustNotDecide0);
                scaled = (if \<not> mustNotDecide \<and> total = lastTotalRequestCount c
                          then collectorScaleToZero kubeClient config []
                          else ([], None))
            in \<lparr>collectorAfter = \<lparr>requestCountsByProxy = counts, lastTotalRequestCount = total\<rparr>,
                totalRequestCount = total, events = fst scaled, panicked = snd scaled,
                returned = False\<rparr>))"

text \<open>
  The loop over the ticks it is given, until the context is done: the results of the
  ticks it ran. A panic in a scale-down ends the goroutine as well.
\<close>

fun collectMetrics ::
    "kubeClient \<Rightarrow> metricsCollectorConfig \<Rightarrow> collector \<Rightarrow> tickInput list \<Rightarrow> tickResult list" where
  "collectMetrics kubeClient config c [] = []"
| "collectMetrics kubeClient config c (i # rest) =
     (let r = tick kubeClient config c i
      in if returned r \<or> panicked r \<noteq> None then [r]
         else r # collectMetrics kubeClient config (collectorAfter r) rest)"



text \<open>Two runs used as examples below.\<close>

definition idleClient :: kubeClient where
  "idleClient =
     \<lparr>patchOK = (\<lambda>tr a namespace name. True),
      getAnnotations = (\<lambda>a namespace name. Some Map.empty)\<rparr>"

definition twoPods :: tickInput where
  "twoPods =
     \<lparr>scrapes = [Some \<lparr>ProxyID = ''A'', RequestCount = 17\<rparr>,
                 Some \<lparr>ProxyID = ''B'', RequestCount = 5\<rparr>],
      timerFired = False, ctxDone = False, selectPrefersTimer = False\<rparr>"

definition freshPod :: tickInput where
  "freshPod =
     \<lparr>scrapes = [Some \<lparr>ProxyID = ''A'', RequestCount = 0\<rparr>],
      timerFired = False, ctxDone = False, selectPrefersTimer = False\<rparr>"

text \<open>
  Idleness as the specification words it: the total of the tick equals the total of the
  previous tick, so there is a previous tick.
\<close>

definition specEqualsPreviousTotal :: "tickResult list \<Rightarrow> nat \<Rightarrow> bool" where
  "specEqualsPreviousTotal results k =
     (0 < k \<and> totalRequestCount (results ! k) = totalRequestCount (results ! (k - 1)))"

section \<open>Activator: the host index\<close>

text \<open>\<^verbatim>\<open>fmt.Sprintf("%d", n)\<close>: the decimal digits of an integer, with a minus sign if negative.\<close>

function showDigits :: "int \<Rightarrow> string" where
  "showDigits n =
     (if n < 10 then [''0123456789'' ! nat n]
      else showDigits (n div 10) @ [''0123456789'' ! nat (n mod 10)])"
  by pat_completeness auto
termination
  by (relation "measure nat") auto

declare showDigits.simps [simp del]

definition showInt :: "int \<Rightarrow> string" where
  "showInt i = (if i < 0 then CHR ''-'' # showDigits (- i) else showDigits i)"

text \<open>
  The two regular expressions, \<^verbatim>\<open>^osiris\.dm\.gg/loadBalancerHostname(?:-\d+)?$\<close> and
  the same for \<^verbatim>\<open>ingressHostname\<close>: the name itself, or the name, a hyphen and one or
  more ASCII digits.
\<close>

definition matchesNumbered :: "string \<Rightarrow> string \<Rightarrow> bool" where
  "matchesNumbered base k =
     (if prefix base k then
        (case drop (length base) k of
           [] \<Rightarrow> True
         | c # ds \<Rightarrow> c = CHR ''-'' \<and> ds \<noteq> [] \<and> list_all (\<lambda>d. d \<in> set ''0123456789'') ds)
      else False)"

definition loadBalancerHostnameAnnotationRegex :: "string \<Rightarrow> bool" where
  "loadBalancerHostnameAnnotationRegex k = matchesNumbered ''osiris.dm.gg/loadBalancerHostname'' k"

definition ingressHostnameAnnotationRegex :: "string \<Rightarrow> bool" where
  "ingressHostnameAnnotationRegex k = matchesNumbered ''osiris.dm.gg/ingressHostname'' k"

text \<open>
  Modelled from the spec: the types \<^verbatim>\<open>appKind\<close> and \<^verbatim>\<open>app\<close> are declared in a file
  that is not among the sources. The specification gives the application descriptor
  the fields namespace, service name, name, kind (deployment or statefulset),
  dependencies, target URL and reverse proxy, the fields \<open>updateIndex\<close> fills in.
  \<open>appKindUnset\<close> is the zero value of a variable of the type. The target URL is kept
  as the text that was parsed, \<open>None\<close> for a nil pointer; the reverse proxy is built from
  it and adds nothing.
\<close>

datatype appKind = appKindUnset | appKindDeployment | appKindStatefulSet

datatype app = App
  (Namespace: string)
  (ServiceName: string)
  (Name: string)
  (Kind: appKind)
  (Dependencies: "app list")
  (TargetURL: "string option")

text \<open>
  Of a Kubernetes service: name, namespace, annotations (the entries of the map in the
  order a \<^verbatim>\<open>range\<close> visits them), cluster IP, ports, and the IPs of the load-balancer
  ingress points. A port is an \<^verbatim>\<open>int32\<close>; the program only prints and compares it.
\<close>

record servicePort =
  PortName :: string
  Port :: int
  NodePort :: int

record service =
  SvcName :: string
  SvcNamespace :: string
  Annotations :: "(string \<times> string) list"
  ClusterIP :: string
  Ports :: "servicePort list"
  IngressIPs :: "string list"

text \<open>
  Modelled from the spec: \<^verbatim>\<open>getKey\<close> and the type of the activator are not among
  the sources. The specification gives the identity key of a workload as namespace,
  kind and name, so the deployments and statefulsets are maps from such a triple to the
  annotations of the workload (a nil map reads like an empty one). \<open>services\<close> and
  \<open>nodeAddresses\<close> list the entries of the two maps in the order a \<^verbatim>\<open>range\<close> visits
  them.
\<close>

definition getKey :: "string \<Rightarrow> appKind \<Rightarrow> string \<Rightarrow> string \<times> appKind \<times> string" where
  "getKey namespace kind name = (namespace, kind, name)"

record activator =
  services :: "service list"
  deployments :: "string \<times> appKind \<times> string \<rightharpoonup> (string \<rightharpoonup> string)"
  statefulSets :: "string \<times> appKind \<times> string \<rightharpoonup> (string \<rightharpoonup> string)"
  nodeAddresses :: "string list"
  appsByHost :: "string \<rightharpoonup> app"

text \<open>
  The first part of the loop body: name and kind of the workload the service is bound
  to, and the cleaned dependencies annotation of that workload.
\<close>

definition resolveWorkload :: "activator \<Rightarrow> service \<Rightarrow> string \<times> appKind \<times> string" where
  "resolveWorkload a svc =
     (case map_of (Annotations svc) ''osiris.dm.gg/deployment'' of
        Some deploymentName \<Rightarrow>
          (let name = cleanAnnotationValue deploymentName;
               kind = appKindDeployment
           in (name, kind,
               (case deployments a (getKey (SvcNamespace svc) kind name) of
                  None \<Rightarrow> []
                | Some annotations \<Rightarrow> dependenciesAnnotation annotations)))
      | None \<Rightarrow>
          (case map_of (Annotations svc) ''osiris.dm.gg/statefulset'' of
             Some statefulSetName \<Rightarrow>
               (let name = cleanAnnotationValue statefulSetName;
                    kind = appKindStatefulSet
                in (name, kind,
                    (case statefulSets a (getKey (SvcNamespace svc) kind name) of
                       None \<Rightarrow> []
                     | Some annotations \<Rightarrow> dependenciesAnnotation annotations)))
           | None \<Rightarrow> ([], appKindUnset, [])))"

text \<open>
  The loop over the entries of the dependencies annotation: the dependencies so far and
  the entries reported with \<^verbatim>\<open>glog.Errorf\<close>. \<^verbatim>\<open>elems[1]\<close> is read without a check
  of the length, once for the part after the colon and once for the part after the slash.
\<close>

fun parseDependencies ::
    "string list \<Rightarrow> app list \<times> string list \<Rightarrow> panic + app list \<times> string list" where
  "parseDependencies [] acc = Inr acc"
| "parseDependencies (dependency # rest) (dependencies, logged) =
     (if length dependency = 0 then parseDependencies rest (dependencies, logged)
      else
        (let elems = SplitN2 dependency (CHR '':'');
             depKind = elems ! 0;
             known = (ToLower depKind = ''deployment'' \<or> ToLower depKind = ''statefulset'');
             depAppKind = (if ToLower depKind = ''deployment'' then appKindDeployment
                           else appKindStatefulSet)
         in if \<not> known then parseDependencies rest (dependencies, logged @ [dependency])
            else if \<not> 1 < length elems then Inl IndexOutOfRange
            else
              (let elems' = SplitN2 (elems ! 1) (CHR ''/'');
                   depNamespace = elems' ! 0
               in if \<not> 1 < length elems' then Inl IndexOutOfRange
                  else
                    (let depName = elems' ! 1
                     in parseDependencies rest
                          (dependencies @ [App depNamespace depName depName depAppKind [] None],
                           logged)))))"

definition svcDNSNames :: "service \<Rightarrow> string list" where
  "svcDNSNames svc =
     [SvcName svc @ ''.'' @ SvcNamespace svc,
      SvcName svc @ ''.'' @ SvcNamespace svc @ ''.svc'',
      SvcName svc @ ''.'' @ SvcNamespace svc @ ''.svc.cluster'',
      SvcName svc @ ''.'' @ SvcNamespace svc @ ''.svc.cluster.local'']"

text \<open>The loop that looks for a port named \<open>http\<close>, and for port 80 on its way there.\<close>

fun findHTTPPort :: "servicePort list \<Rightarrow> bool \<Rightarrow> string \<times> bool" where
  "findHTTPPort [] foundPort80 = ([], foundPort80)"
| "findHTTPPort (port # rest) foundPort80 =
     (if PortName port = ''http'' then (showInt (Port port), foundPort80)
      else findHTTPPort rest (if Port port = 80 then True else foundPort80))"

definition ingressDefaultPortOf :: "service \<Rightarrow> string" where
  "ingressDefaultPortOf svc =
     (case map_of (Annotations svc) ''osiris.dm.gg/ingressDefaultPort'' of
        Some v \<Rightarrow> v
      | None \<Rightarrow>
          if length (Ports svc) = 1 then showInt (Port (Ports svc ! 0))
          else
            (let (ingressDefaultPort, foundPort80) = findHTTPPort (Ports svc) False
             in if ingressDefaultPort = [] \<and> foundPort80 then ''80'' else ingressDefaultPort))"

text \<open>\<^verbatim>\<open>for _, k := range ks { appsByHost[k] = app }\<close>\<close>

fun setAll :: "string list \<Rightarrow> app \<Rightarrow> (string \<rightharpoonup> app) \<Rightarrow> (string \<rightharpoonup> app)" where
  "setAll [] app m = m"
| "setAll (k # ks) app m = setAll ks app (m(k \<mapsto> app))"

text \<open>The cleaned values of the annotations whose key matches.\<close>

definition hostnames :: "(string \<Rightarrow> bool) \<Rightarrow> service \<Rightarrow> string list" where
  "hostnames regex svc =
     map (\<lambda>(k, v). cleanAnnotationValue v) (filter (\<lambda>(k, v). regex k) (Annotations svc))"

definition withPort :: "int \<Rightarrow> string \<Rightarrow> string" where
  "withPort port host = host @ '':'' @ showInt port"

text \<open>
  The body of the loop over the ports. \<^verbatim>\<open>url.Parse\<close> belongs to the standard library:
  \<open>urlParseFails\<close> tells for which texts it returns an error.
\<close>

definition indexPort ::
    "(string \<Rightarrow> bool) \<Rightarrow> activator \<Rightarrow> service \<Rightarrow> string \<Rightarrow> appKind \<Rightarrow> app list \<Rightarrow> string
       \<Rightarrow> servicePort \<Rightarrow> (string \<rightharpoonup> app) \<Rightarrow> (string \<rightharpoonup> app)" where
  "indexPort urlParseFails a svc name kind dependencies ingressDefaultPort port m =
     (let target = ''http://'' @ ClusterIP svc @ '':'' @ showInt (Port port)
      in if urlParseFails target then m
         else
           (let app = App (SvcNamespace svc) (SvcName svc) name kind dependencies (Some target);
                externalIPs = filter (\<lambda>ip. ip \<noteq> []) (IngressIPs svc);
                m1 = (if Port port = 80 then
                        setAll (hostnames loadBalancerHostnameAnnotationRegex svc) app
                          (setAll externalIPs app
                             ((setAll (svcDNSNames svc) app m)(ClusterIP svc \<mapsto> app)))
                      else m);
                m2 = (if showInt (Port port) = ingressDefaultPort then
                        setAll (hostnames ingressHostnameAnnotationRegex svc) app m1
                      else m1);
                m3 = setAll (map (withPort (Port port)) (svcDNSNames svc)) app m2;
                m4 = m3(withPort (Port port) (ClusterIP svc) \<mapsto> app);
                m5 = setAll (map (withPort (Port port)) externalIPs) app m4;
                m6 = (if NodePort port \<noteq> 0 then
                        setAll (map (withPort (NodePort port)) (nodeAddresses a)) app m5
                      else m5);
                m7 = setAll (map (withPort (Port port))
                               (hostnames loadBalancerHostnameAnnotationRegex svc)) app m6
            in m7))"

text \<open>The body of the loop over the services.\<close>

definition indexService ::
    "(string \<Rightarrow> bool) \<Rightarrow> activator \<Rightarrow> service \<Rightarrow> (string \<rightharpoonup> app) \<Rightarrow> panic + (string \<rightharpoonup> app)" where
  "indexService urlParseFails a svc m =
     (let (name, kind, dependenciesAnnotationValue) = resolveWorkload a svc
      in if length name = 0 then Inr m
         else
           (case parseDependencies (Split dependenciesAnnotationValue (CHR '','')) ([], []) of
              Inl p \<Rightarrow> Inl p
            | Inr (dependencies, logged) \<Rightarrow>
                Inr (fold (indexPort urlParseFails a svc name kind dependencies
                             (ingressDefaultPortOf svc))
                       (Ports svc) m)))"

fun indexServices ::
    "(string \<Rightarrow> bool) \<Rightarrow> activator \<Rightarrow> service list \<Rightarrow> (string \<rightharpoonup> app)
       \<Rightarrow> panic + (string \<rightharpoonup> app)" where
  "indexServices urlParseFails a [] m = Inr m"
| "indexServices urlParseFails a (svc # rest) m =
     (case indexService urlParseFails a svc m of
        Inl p \<Rightarrow> Inl p
      | Inr m' \<Rightarrow> indexServices urlParseFails a rest m')"

text \<open>\<^verbatim>\<open>updateIndex\<close>: the new index replaces the old one, unless the method panics.\<close>

definition updateIndex :: "(string \<Rightarrow> bool) \<Rightarrow> activator \<Rightarrow> panic + activator" where
  "updateIndex urlParseFails a =
     (case indexServices urlParseFails a (services a) Map.empty of
        Inl p \<Rightarrow> Inl p
      | Inr m \<Rightarrow> Inr (a\<lparr>appsByHost := m\<rparr>))"

text \<open>Whether a host is a key of the index that \<open>updateIndex\<close> leaves.\<close>

definition registered :: "panic + activator \<Rightarrow> string \<Rightarrow> bool" where
  "registered r host = (case r of Inl p \<Rightarrow> False | Inr a \<Rightarrow> appsByHost a host \<noteq> None)"

text \<open>
  The hosts the loop body registers for a port whose target URL parses, and for a
  service.
\<close>

definition portHosts :: "activator \<Rightarrow> service \<Rightarrow> servicePort \<Rightarrow> string set" where
  "portHosts a svc port =
     (let bare = set (svcDNSNames svc) \<union> {ClusterIP svc}
                 \<union> {ip \<in> set (IngressIPs svc). ip \<noteq> []}
                 \<union> set (hostnames loadBalancerHostnameAnnotationRegex svc)
      in withPort (Port port) ` bare
         \<union> (if Port port = 80 then bare else {})
         \<union> (if showInt (Port port) = ingressDefaultPortOf svc
              then set (hostnames ingressHostnameAnnotationRegex svc) else {})
         \<union> (if NodePort port \<noteq> 0
              then withPort (NodePort port) ` set (nodeAddresses a) else {}))"

definition targetOf :: "service \<Rightarrow> servicePort \<Rightarrow> string" where
  "targetOf svc port = ''http://'' @ ClusterIP svc @ '':'' @ showInt (Port port)"

definition serviceHosts :: "(string \<Rightarrow> bool) \<Rightarrow> activator \<Rightarrow> service \<Rightarrow> string set" where
  "serviceHosts urlParseFails a svc =
     (if fst (resolveWorkload a svc) = [] then {}
      else \<Union> ((\<lambda>port. if urlParseFails (targetOf svc port) then {} else portHosts a svc port)
               ` set (Ports svc)))"

text \<open>Examples: a service bound to the deployment \<open>web\<close>, with one or with two ports.\<close>

definition neverFails :: "string \<Rightarrow> bool" where
  "neverFails target = False"

definition webService :: service where
  "webService =
     \<lparr>SvcName = ''web'', SvcNamespace = ''default'',
      Annotations = [(''osiris.dm.gg/deployment'', ''web''),
                     (''osiris.dm.gg/ingressHostname'', ''web.example.com'')],
      ClusterIP = ''10.0.0.1'',
      Ports = [\<lparr>PortName = ''http'', Port = 8080, NodePort = 0\<rparr>],
      IngressIPs = [''192.0.2.7'']\<rparr>"

definition webActivator :: activator where
  "webActivator =
     \<lparr>services = [webService], deployments = Map.empty, statefulSets = Map.empty,
      nodeAddresses = [''node1''], appsByHost = Map.empty\<rparr>"

definition shopService :: service where
  "shopService =
     \<lparr>SvcName = ''shop'', SvcNamespace = ''default'',
      Annotations = [(''osiris.dm.gg/deployment'', ''shop''),
                     (''osiris.dm.gg/loadBalancerHostname-1'', ''lb.example.com''),
                     (''osiris.dm.gg/ingressHostname'', ''shop.example.com'')],
      ClusterIP = ''10.0.0.2'',
      Ports = [\<lparr>PortName = ''web'', Port = 80, NodePort = 30080\<rparr>,
               \<lparr>PortName = ''admin'', Port = 8443, NodePort = 0\<rparr>],
      IngressIPs = [''192.0.2.8'', []]\<rparr>"

definition shopActivator :: activator where
  "shopActivator =
     \<lparr>services = [shopService], deployments = Map.empty, statefulSets = Map.empty,
      nodeAddresses = [''node1''], appsByHost = Map.empty\<rparr>"

definition brokenActivator :: activator where
  "brokenActivator =
     \<lparr>services = [webService],
      deployments = [(''default'', appKindDeployment, ''web'') \<mapsto>
                       [''osiris.dm.gg/dependencies'' \<mapsto> ''deployment'']],
      statefulSets = Map.empty,
      nodeAddresses = [], appsByHost = Map.empty\<rparr>"

definition unboundService :: service where
  "unboundService =
     \<lparr>SvcName = ''idle'', SvcNamespace = ''default'',
      Annotations = [(''osiris.dm.gg/deployment'', [CHR 0x20, quote, quote, CHR 0x20]),
                     (''osiris.dm.gg/statefulset'', ''db'')],
      ClusterIP = ''10.0.0.3'',
      Ports = [\<lparr>PortName = ''http'', Port = 80, NodePort = 30081\<rparr>],
      IngressIPs = [''192.0.2.9'']\<rparr>"

chapter \<open>Its properties\<close>

section \<open>Properties of the string functions\<close>

lemma TrimLeftSpace_decomp:
  "\<exists>rs. set rs \<subseteq> set spaceRunes \<and> s = concat rs @ TrimLeftSpace s"
proof (induction s rule: TrimLeftSpace.induct)
  case (1 s)
  show ?case
  proof (cases "leadingSpace s")
    case None
    then have "TrimLeftSpace s = s" by (simp add: TrimLeftSpace.simps)
    then have "set [] \<subseteq> set spaceRunes \<and> s = concat [] @ TrimLeftSpace s" by simp
    then show ?thesis by blast
  next
    case (Some e)
    then have e: "e \<in> set spaceRunes" "prefix e s" by (auto dest: leadingSpaceD)
    from "1.IH"[OF Some] obtain rs where rs: "set rs \<subseteq> set spaceRunes"
      "drop (length e) s = concat rs @ TrimLeftSpace (drop (length e) s)" by blast
    have t: "TrimLeftSpace s = TrimLeftSpace (drop (length e) s)"
      using Some by (simp add: TrimLeftSpace.simps)
    from e(2) have "s = e @ drop (length e) s" by (auto simp: prefix_def)
    with rs(2) t have "s = concat (e # rs) @ TrimLeftSpace s" by simp
    moreover have "set (e # rs) \<subseteq> set spaceRunes" using e(1) rs(1) by simp
    ultimately show ?thesis by blast
  qed
qed

lemma TrimLeftSpace_no_leading: "leadingSpace (TrimLeftSpace s) = None"
proof (induction s rule: TrimLeftSpace.induct)
  case (1 s)
  show ?case
  proof (cases "leadingSpace s")
    case None
    then show ?thesis by (simp add: TrimLeftSpace.simps)
  next
    case (Some e)
    with "1.IH"[OF Some] show ?thesis by (simp add: TrimLeftSpace.simps)
  qed
qed

lemma TrimRightSpace_decomp:
  "\<exists>rs. set rs \<subseteq> set spaceRunes \<and> s = TrimRightSpace s @ concat rs"
proof (induction s rule: TrimRightSpace.induct)
  case (1 s)
  show ?case
  proof (cases "trailingSpace s")
    case None
    then have "TrimRightSpace s = s" by (simp add: TrimRightSpace.simps)
    then have "set [] \<subseteq> set spaceRunes \<and> s = TrimRightSpace s @ concat []" by simp
    then show ?thesis by blast
  next
    case (Some e)
    then have e: "e \<in> set spaceRunes" "suffix e s" by (auto dest: trailingSpaceD)
    from "1.IH"[OF Some] obtain rs where rs: "set rs \<subseteq> set spaceRunes"
      "take (length s - length e) s
         = TrimRightSpace (take (length s - length e) s) @ concat rs" by blast
    have t: "TrimRightSpace s = TrimRightSpace (take (length s - length e) s)"
      using Some by (simp add: TrimRightSpace.simps)
    from e(2) have "s = take (length s - length e) s @ e" by (auto simp: suffix_def)
    with rs(2) t have "s = TrimRightSpace s @ concat rs @ e" by (metis append.assoc)
    then have "s = TrimRightSpace s @ concat (rs @ [e])" by simp
    moreover have "set (rs @ [e]) \<subseteq> set spaceRunes" using e(1) rs(1) by simp
    ultimately show ?thesis by blast
  qed
qed

lemma TrimRightSpace_no_trailing: "trailingSpace (TrimRightSpace s) = None"
proof (induction s rule: TrimRightSpace.induct)
  case (1 s)
  show ?case
  proof (cases "trailingSpace s")
    case None
    then show ?thesis by (simp add: TrimRightSpace.simps)
  next
    case (Some e)
    with "1.IH"[OF Some] show ?thesis by (simp add: TrimRightSpace.simps)
  qed
qed

lemma leadingSpace_None_prefix:
  assumes "leadingSpace s = None" "prefix t s"
  shows "leadingSpace t = None"
proof -
  from assms(1) have "\<forall>e \<in> set spaceRunes. \<not> prefix e s"
    by (simp add: leadingSpace_def find_None_iff)
  with assms(2) have "\<forall>e \<in> set spaceRunes. \<not> prefix e t"
    by (meson prefix_order.order_trans)
  then show ?thesis by (simp add: leadingSpace_def find_None_iff)
qed

lemma TrimSpace_no_leading: "leadingSpace (TrimSpace s) = None"
proof -
  obtain rs where "TrimLeftSpace s = TrimRightSpace (TrimLeftSpace s) @ concat rs"
    using TrimRightSpace_decomp by blast
  then have "prefix (TrimSpace s) (TrimLeftSpace s)"
    unfolding TrimSpace_def by (metis prefixI)
  with TrimLeftSpace_no_leading show ?thesis by (rule leadingSpace_None_prefix)
qed

lemma TrimSpace_no_trailing: "trailingSpace (TrimSpace s) = None"
  unfolding TrimSpace_def by (rule TrimRightSpace_no_trailing)

lemma TrimSpace_decomp:
  "\<exists>ls rs. set ls \<subseteq> set spaceRunes \<and> set rs \<subseteq> set spaceRunes \<and>
     s = concat ls @ TrimSpace s @ concat rs"
proof -
  obtain ls where ls: "set ls \<subseteq> set spaceRunes" "s = concat ls @ TrimLeftSpace s"
    using TrimLeftSpace_decomp by blast
  obtain rs where rs: "set rs \<subseteq> set spaceRunes"
    "TrimLeftSpace s = TrimSpace s @ concat rs"
    unfolding TrimSpace_def using TrimRightSpace_decomp by blast
  from ls(2) rs(2) have "s = concat ls @ TrimSpace s @ concat rs" by simp
  with ls(1) rs(1) show ?thesis by blast
qed

lemma TrimSpace_length: "length (TrimSpace s) \<le> length s"
  using TrimSpace_decomp[of s] by (metis length_append le_add1 le_add2 le_trans)

lemma TrimSpace_same_length: "length (TrimSpace s) = length s \<Longrightarrow> TrimSpace s = s"
proof -
  assume a: "length (TrimSpace s) = length s"
  obtain a b where s: "s = a @ TrimSpace s @ b" using TrimSpace_decomp by blast
  then have "length s = length a + length (TrimSpace s) + length b"
    by (metis length_append add.assoc)
  with a have "a = []" "b = []" by auto
  with s show ?thesis by simp
qed

lemma TrimSpace_fixed: "leadingSpace s = None \<Longrightarrow> trailingSpace s = None \<Longrightarrow> TrimSpace s = s"
  by (simp add: TrimSpace_def TrimLeftSpace.simps TrimRightSpace.simps)

lemma TrimLeft_decomp: "\<exists>n. s = replicate n c @ TrimLeft s c"
proof -
  have "s = takeWhile (\<lambda>x. x = c) s @ TrimLeft s c" by (simp add: TrimLeft_def)
  moreover have "takeWhile (\<lambda>x. x = c) s = replicate (length (takeWhile (\<lambda>x. x = c) s)) c"
    by (induction s) auto
  ultimately show ?thesis by metis
qed

lemma TrimLeft_no_leading: "\<not> prefix [c] (TrimLeft s c)"
  unfolding TrimLeft_def by (induction s) (auto)

lemma TrimRight_decomp: "\<exists>n. s = TrimRight s c @ replicate n c"
proof -
  obtain n where "rev s = replicate n c @ TrimLeft (rev s) c" using TrimLeft_decomp by blast
  then have "rev (rev s) = rev (replicate n c @ TrimLeft (rev s) c)" by simp
  then have "s = TrimRight s c @ replicate n c" by (simp add: TrimRight_def TrimLeft_def)
  then show ?thesis ..
qed

lemma TrimRight_no_trailing: "\<not> suffix [c] (TrimRight s c)"
proof -
  have "\<not> prefix [c] (TrimLeft (rev s) c)" by (rule TrimLeft_no_leading)
  then show ?thesis
    unfolding TrimRight_def TrimLeft_def by (metis rev_rev_ident suffix_to_prefix rev.simps(2) rev.simps(1) append_Nil)
qed

lemma TrimRight_keeps_no_leading:
  "\<not> prefix [c] s \<Longrightarrow> \<not> prefix [c] (TrimRight s c)"
proof -
  assume a: "\<not> prefix [c] s"
  obtain n where "s = TrimRight s c @ replicate n c" using TrimRight_decomp by blast
  then have "prefix (TrimRight s c) s" by (metis prefixI)
  with a show ?thesis by (meson prefix_order.order_trans)
qed

lemma TrimLeft_idem: "TrimLeft (TrimLeft s c) c = TrimLeft s c"
  unfolding TrimLeft_def by (induction s) auto

lemma TrimLeft_fixed: "\<not> prefix [c] s \<Longrightarrow> TrimLeft s c = s"
  unfolding TrimLeft_def by (cases s) auto

lemma TrimRight_fixed: "\<not> suffix [c] s \<Longrightarrow> TrimRight s c = s"
proof -
  assume "\<not> suffix [c] s"
  then have "\<not> prefix [c] (rev s)" by (metis rev_rev_ident suffix_to_prefix rev.simps append_Nil)
  then have "TrimLeft (rev s) c = rev s" by (rule TrimLeft_fixed)
  then show ?thesis by (simp add: TrimRight_def TrimLeft_def)
qed

lemma TrimLeft_length: "length (TrimLeft s c) \<le> length s"
  unfolding TrimLeft_def by (rule length_dropWhile_le)

lemma TrimRight_length: "length (TrimRight s c) \<le> length s"
  unfolding TrimRight_def by (metis length_dropWhile_le length_rev)

lemma clean_no_leading_quote: "\<not> prefix [quote] (cleanAnnotationValue x)"
  unfolding cleanAnnotationValue_def Let_def
  by (rule TrimRight_keeps_no_leading) (rule TrimLeft_no_leading)

lemma clean_no_trailing_quote: "\<not> suffix [quote] (cleanAnnotationValue x)"
  unfolding cleanAnnotationValue_def Let_def by (rule TrimRight_no_trailing)

lemma clean_quotes_decomp:
  "\<exists>l r. TrimSpace x = replicate l quote @ cleanAnnotationValue x @ replicate r quote"
proof -
  obtain l where l: "TrimSpace x = replicate l quote @ TrimLeft (TrimSpace x) quote"
    using TrimLeft_decomp by blast
  obtain r where r: "TrimLeft (TrimSpace x) quote = cleanAnnotationValue x @ replicate r quote"
    unfolding cleanAnnotationValue_def Let_def using TrimRight_decomp by blast
  from l r have "TrimSpace x = replicate l quote @ cleanAnnotationValue x @ replicate r quote"
    by simp
  then show ?thesis by blast
qed

lemma clean_length: "length (cleanAnnotationValue x) \<le> length (TrimSpace x)"
  unfolding cleanAnnotationValue_def Let_def
  by (meson TrimLeft_length TrimRight_length le_trans)

lemma clean_of_trimmed:
  assumes "TrimSpace y = y" "\<not> prefix [quote] y" "\<not> suffix [quote] y"
  shows "cleanAnnotationValue y = y"
  using assms by (simp add: cleanAnnotationValue_def TrimLeft_fixed TrimRight_fixed)

section \<open>Annotation cleaning: claims C5 and C6\<close>

text \<open>
  C5, as the specification states it: the cleaning trims white space and then strips at
  most one leading and one trailing single-quote. On the value of two quotes, the
  letter a and two quotes the program returns the letter alone, the specification's
  wording keeps one quote on each side.
\<close>

theorem cleanAnnotationValue_not_single_quote_strip:
  "cleanAnnotationValue [quote, quote, CHR ''a'', quote, quote] = ''a'' \<and>
   specCleanSingleQuote [quote, quote, CHR ''a'', quote, quote] = [quote, CHR ''a'', quote] \<and>
   cleanAnnotationValue [quote, quote, CHR ''a'', quote, quote]
     \<noteq> specCleanSingleQuote [quote, quote, CHR ''a'', quote, quote]"
  by code_simp

text \<open>
  C5, amended: for every input string, the cleaning first trims leading and trailing
  white space (the input is a run of white-space runes, the trimmed string, and a run
  of white-space runes, and the trimmed string neither starts nor ends with a
  white-space rune) and then strips the whole run of leading single-quotes and the whole
  run of trailing single-quotes: the trimmed string is a run of quotes, the result, and
  a run of quotes, and the result neither starts nor ends with a quote.
\<close>

theorem cleanAnnotationValue_strips_quote_runs:
  "\<exists>ls rs l r.
     set ls \<subseteq> set spaceRunes \<and> set rs \<subseteq> set spaceRunes \<and>
     x = concat ls @ TrimSpace x @ concat rs \<and>
     leadingSpace (TrimSpace x) = None \<and> trailingSpace (TrimSpace x) = None \<and>
     TrimSpace x = replicate l quote @ cleanAnnotationValue x @ replicate r quote \<and>
     \<not> prefix [quote] (cleanAnnotationValue x) \<and>
     \<not> suffix [quote] (cleanAnnotationValue x)"
proof -
  obtain ls rs where a: "set ls \<subseteq> set spaceRunes" "set rs \<subseteq> set spaceRunes"
    "x = concat ls @ TrimSpace x @ concat rs"
    using TrimSpace_decomp by blast
  obtain l r where b: "TrimSpace x = replicate l quote @ cleanAnnotationValue x @ replicate r quote"
    using clean_quotes_decomp by blast
  from a b TrimSpace_no_leading TrimSpace_no_trailing
    clean_no_leading_quote clean_no_trailing_quote
  show ?thesis by blast
qed

text \<open>
  C6, as the specification states it: cleaning a cleaned value changes nothing. White
  space inside the quotes survives the first cleaning and is trimmed by the second.
\<close>

theorem cleanAnnotationValue_not_idempotent:
  "cleanAnnotationValue [quote, CHR 0x20, CHR ''a'', quote] = [CHR 0x20, CHR ''a''] \<and>
   cleanAnnotationValue (cleanAnnotationValue [quote, CHR 0x20, CHR ''a'', quote]) = ''a'' \<and>
   cleanAnnotationValue (cleanAnnotationValue [quote, CHR 0x20, CHR ''a'', quote])
     \<noteq> cleanAnnotationValue [quote, CHR 0x20, CHR ''a'', quote]"
  by code_simp

text \<open>
  C6, amended: cleaning a cleaned value changes nothing exactly when the cleaned value
  has no leading or trailing white space (trimming it returns it unchanged).
\<close>

theorem cleanAnnotationValue_idempotent_iff_trimmed:
  "(cleanAnnotationValue (cleanAnnotationValue x) = cleanAnnotationValue x)
     = (TrimSpace (cleanAnnotationValue x) = cleanAnnotationValue x)"
proof
  assume eq: "cleanAnnotationValue (cleanAnnotationValue x) = cleanAnnotationValue x"
  have "length (cleanAnnotationValue (cleanAnnotationValue x))
          \<le> length (TrimSpace (cleanAnnotationValue x))"
    by (rule clean_length)
  with eq have "length (cleanAnnotationValue x) \<le> length (TrimSpace (cleanAnnotationValue x))"
    by simp
  with TrimSpace_length[of "cleanAnnotationValue x"]
  have "length (TrimSpace (cleanAnnotationValue x)) = length (cleanAnnotationValue x)"
    by simp
  then show "TrimSpace (cleanAnnotationValue x) = cleanAnnotationValue x"
    by (rule TrimSpace_same_length)
next
  assume "TrimSpace (cleanAnnotationValue x) = cleanAnnotationValue x"
  then show "cleanAnnotationValue (cleanAnnotationValue x) = cleanAnnotationValue x"
    using clean_no_leading_quote clean_no_trailing_quote by (rule clean_of_trimmed)
qed

theorem cleanAnnotationValue_idempotent_witness:
  "TrimSpace (cleanAnnotationValue [CHR 0x20, quote, CHR ''a'', CHR ''b'', quote, CHR 0x20])
     = cleanAnnotationValue [CHR 0x20, quote, CHR ''a'', CHR ''b'', quote, CHR 0x20] \<and>
   cleanAnnotationValue (cleanAnnotationValue [CHR 0x20, quote, CHR ''a'', CHR ''b'', quote, CHR 0x20])
     = cleanAnnotationValue [CHR 0x20, quote, CHR ''a'', CHR ''b'', quote, CHR 0x20] \<and>
   cleanAnnotationValue [CHR 0x20, quote, CHR ''a'', CHR ''b'', quote, CHR 0x20] = ''ab''"
proof -
  have c: "cleanAnnotationValue [CHR 0x20, quote, CHR ''a'', CHR ''b'', quote, CHR 0x20] = ''ab''"
    by code_simp
  have t: "TrimSpace ''ab'' = ''ab''" by code_simp
  from cleanAnnotationValue_idempotent_iff_trimmed[of "[CHR 0x20, quote, CHR ''a'', CHR ''b'', quote, CHR 0x20]"] c t
  show ?thesis by simp
qed

section \<open>Proxy sidecar: claims C8 and C9\<close>

lemma Contains_sublist: "Contains s substr = sublist substr s"
proof (induction s)
  case Nil
  then show ?case by simp
next
  case (Cons c cs)
  then show ?case by (cases substr) (auto simp: sublist_Cons_right)
qed

lemma handleRequest_ignoredPaths [simp]: "ignoredPaths (handleRequest s r) = ignoredPaths s"
  by (simp add: handleRequest_def)

lemma isIgnoredRequest_cong:
  "ignoredPaths s' = ignoredPaths s \<Longrightarrow> isIgnoredRequest s' r = isIgnoredRequest s r"
  by (simp add: isIgnoredRequest_def isIgnoredPath_def split: option.splits)

lemma handleRequests_ignoredPaths [simp]: "ignoredPaths (handleRequests s rs) = ignoredPaths s"
  by (induction rs arbitrary: s) auto

lemma countedRequests_cong:
  "ignoredPaths s' = ignoredPaths s \<Longrightarrow> countedRequests s' rs = countedRequests s rs"
  unfolding countedRequests_def using isIgnoredRequest_cong[of s' s] by simp

lemma handleRequests_count:
  "requestCount (handleRequests s rs) = requestCount s + of_nat (countedRequests s rs)"
proof (induction rs arbitrary: s)
  case Nil
  then show ?case by (simp add: countedRequests_def)
next
  case (Cons r rs)
  have c: "countedRequests (handleRequest s r) rs = countedRequests s rs"
    by (rule countedRequests_cong) simp
  have "requestCount (handleRequests (handleRequest s r) rs)
          = requestCount (handleRequest s r) + of_nat (countedRequests s rs)"
    using Cons.IH[of "handleRequest s r"] c by simp
  also have "\<dots> = requestCount s + of_nat (countedRequests s (r # rs))"
    by (simp add: handleRequest_def countedRequests_def)
  finally show ?case by simp
qed

lemma isIgnoredRequest_iff:
  "isIgnoredRequest s r =
     ((\<exists>u. URL r = Some u \<and> Path u \<noteq> [] \<and> Path u \<in> ignoredPaths s)
      \<or> sublist ''kube-probe'' (headerGet (Header r) ''User-Agent''))"
  by (auto simp: isIgnoredRequest_def isIgnoredPath_def isKubeProbe_def Contains_sublist
      split: option.splits)

text \<open>
  C8, amended: for every sequence of requests, \<open>requestCount\<close> after the requests is its
  initial value plus the number N of requests that are not ignored (in \<^verbatim>\<open>uint64\<close>
  arithmetic: modulo \<open>2 ^ 64\<close>), where a request is ignored exactly when its URL is not
  nil and its path is not empty and is in \<open>ignoredPaths\<close>, or its User-Agent header
  contains \<open>kube-probe\<close>; an ignored request leaves the proxy state unchanged.
\<close>

theorem requestCount_after_requests:
  "requestCount (handleRequests s rs) = requestCount s + of_nat (countedRequests s rs)
   \<and> unat (requestCount (handleRequests s rs))
       = (unat (requestCount s) + countedRequests s rs) mod 2 ^ 64
   \<and> countedRequests s rs = length (filter (\<lambda>r. \<not> isIgnoredRequest s r) rs)
   \<and> (\<forall>r. isIgnoredRequest s r =
         ((\<exists>u. URL r = Some u \<and> Path u \<noteq> [] \<and> Path u \<in> ignoredPaths s)
          \<or> sublist ''kube-probe'' (headerGet (Header r) ''User-Agent'')))
   \<and> (\<forall>r. handleRequest s r =
         (if isIgnoredRequest s r then s else s\<lparr>requestCount := requestCount s + 1\<rparr>))"
proof -
  have a: "requestCount (handleRequests s rs) = requestCount s + of_nat (countedRequests s rs)"
    by (rule handleRequests_count)
  have "unat (requestCount s + of_nat (countedRequests s rs))
          = (unat (requestCount s) + countedRequests s rs) mod 2 ^ 64"
    by (simp add: unat_word_ariths unat_of_nat mod_add_right_eq)
  with a have b: "unat (requestCount (handleRequests s rs))
       = (unat (requestCount s) + countedRequests s rs) mod 2 ^ 64" by simp
  show ?thesis using a b isIgnoredRequest_iff by (simp add: countedRequests_def handleRequest_def)
qed

text \<open>
  C8, as the specification states it, with a request ignored exactly when its URL path
  is in \<open>ignoredPaths\<close> or its User-Agent contains \<open>kube-probe\<close>: when the empty
  path is in \<open>ignoredPaths\<close>, a request with the empty path is ignored in the
  specification's sense, and the counter still goes from 0 to 1.
\<close>

theorem requestCount_counts_empty_ignored_path:
  "specIgnored \<lparr>requestCount = 0, ignoredPaths = {[]}\<rparr>
      \<lparr>URL = Some \<lparr>Path = []\<rparr>, Header = Map.empty\<rparr>
   \<and> specCountedRequests \<lparr>requestCount = 0, ignoredPaths = {[]}\<rparr>
         [\<lparr>URL = Some \<lparr>Path = []\<rparr>, Header = Map.empty\<rparr>] = 0
   \<and> requestCount (handleRequests \<lparr>requestCount = 0, ignoredPaths = {[]}\<rparr>
         [\<lparr>URL = Some \<lparr>Path = []\<rparr>, Header = Map.empty\<rparr>]) = 1
   \<and> requestCount (handleRequests \<lparr>requestCount = 0, ignoredPaths = {[]}\<rparr>
         [\<lparr>URL = Some \<lparr>Path = []\<rparr>, Header = Map.empty\<rparr>])
       \<noteq> requestCount \<lparr>requestCount = 0, ignoredPaths = {[]}\<rparr>
           + of_nat (specCountedRequests \<lparr>requestCount = 0, ignoredPaths = {[]}\<rparr>
               [\<lparr>URL = Some \<lparr>Path = []\<rparr>, Header = Map.empty\<rparr>])"
  by (simp add: specCountedRequests_def specIgnored_def handleRequest_def isIgnoredRequest_def
      isIgnoredPath_def isKubeProbe_def headerGet_def)

text \<open>
  C9: a request whose URL is nil or whose URL path is the empty string is never ignored
  by path, whatever \<open>ignoredPaths\<close> holds: it is ignored exactly when its User-Agent
  marks it as a probe, and it is counted otherwise.
\<close>

theorem empty_path_not_ignored_by_path:
  assumes "URL r = None \<or> (\<exists>u. URL r = Some u \<and> Path u = [])"
  shows "\<not> isIgnoredPath s r
     \<and> isIgnoredRequest s r = isKubeProbe r
     \<and> handleRequest s r =
         (if isKubeProbe r then s else s\<lparr>requestCount := requestCount s + 1\<rparr>)"
  using assms
  by (auto simp: isIgnoredPath_def isIgnoredRequest_def handleRequest_def)

theorem empty_path_not_ignored_by_path_witness:
  "(URL \<lparr>URL = Some \<lparr>Path = []\<rparr>, Header = [''User-Agent'' \<mapsto> [''curl/8.0'']]\<rparr> = None
      \<or> (\<exists>u. URL \<lparr>URL = Some \<lparr>Path = []\<rparr>, Header = [''User-Agent'' \<mapsto> [''curl/8.0'']]\<rparr> = Some u
             \<and> Path u = []))
   \<and> [] \<in> ignoredPaths \<lparr>requestCount = 41, ignoredPaths = {[], ''/metrics''}\<rparr>
   \<and> \<not> isIgnoredPath \<lparr>requestCount = 41, ignoredPaths = {[], ''/metrics''}\<rparr>
         \<lparr>URL = Some \<lparr>Path = []\<rparr>, Header = [''User-Agent'' \<mapsto> [''curl/8.0'']]\<rparr>
   \<and> handleRequest \<lparr>requestCount = 41, ignoredPaths = {[], ''/metrics''}\<rparr>
         \<lparr>URL = Some \<lparr>Path = []\<rparr>, Header = [''User-Agent'' \<mapsto> [''curl/8.0'']]\<rparr>
       = \<lparr>requestCount = 42, ignoredPaths = {[], ''/metrics''}\<rparr>"
proof -
  have h: "URL \<lparr>URL = Some \<lparr>Path = []\<rparr>, Header = [''User-Agent'' \<mapsto> [''curl/8.0'']]\<rparr> = None
      \<or> (\<exists>u. URL \<lparr>URL = Some \<lparr>Path = []\<rparr>, Header = [''User-Agent'' \<mapsto> [''curl/8.0'']]\<rparr> = Some u
             \<and> Path u = [])" by simp
  have k: "\<not> isKubeProbe \<lparr>URL = Some \<lparr>Path = []\<rparr>, Header = [''User-Agent'' \<mapsto> [''curl/8.0'']]\<rparr>"
    by (simp add: isKubeProbe_def headerGet_def)
  from empty_path_not_ignored_by_path[OF h, of "\<lparr>requestCount = 41, ignoredPaths = {[], ''/metrics''}\<rparr>"] h k
  show ?thesis by simp
qed

text \<open>
  The scenarios of the specification: with \<open>/metrics\<close> ignored and the counter at 7, a
  request for \<open>/metrics\<close>, one for \<open>/api\<close> and a probe leave the counter at 8.
\<close>

theorem requestCount_after_requests_witness:
  "requestCount (handleRequests \<lparr>requestCount = 7, ignoredPaths = {''/metrics''}\<rparr>
      [\<lparr>URL = Some \<lparr>Path = ''/metrics''\<rparr>, Header = Map.empty\<rparr>,
       \<lparr>URL = Some \<lparr>Path = ''/api''\<rparr>, Header = Map.empty\<rparr>,
       \<lparr>URL = Some \<lparr>Path = ''/''\<rparr>, Header = [''User-Agent'' \<mapsto> [''kube-probe/1.27'']]\<rparr>]) = 8
   \<and> countedRequests \<lparr>requestCount = 7, ignoredPaths = {''/metrics''}\<rparr>
      [\<lparr>URL = Some \<lparr>Path = ''/metrics''\<rparr>, Header = Map.empty\<rparr>,
       \<lparr>URL = Some \<lparr>Path = ''/api''\<rparr>, Header = Map.empty\<rparr>,
       \<lparr>URL = Some \<lparr>Path = ''/''\<rparr>, Header = [''User-Agent'' \<mapsto> [''kube-probe/1.27'']]\<rparr>] = 1"
proof -
  have c: "countedRequests \<lparr>requestCount = 7, ignoredPaths = {''/metrics''}\<rparr>
      [\<lparr>URL = Some \<lparr>Path = ''/metrics''\<rparr>, Header = Map.empty\<rparr>,
       \<lparr>URL = Some \<lparr>Path = ''/api''\<rparr>, Header = Map.empty\<rparr>,
       \<lparr>URL = Some \<lparr>Path = ''/''\<rparr>, Header = [''User-Agent'' \<mapsto> [''kube-probe/1.27'']]\<rparr>] = 1"
    by (simp add: countedRequests_def isIgnoredRequest_def isIgnoredPath_def
        isKubeProbe_def headerGet_def)
  from requestCount_after_requests[of "\<lparr>requestCount = 7, ignoredPaths = {''/metrics''}\<rparr>"
      "[\<lparr>URL = Some \<lparr>Path = ''/metrics''\<rparr>, Header = Map.empty\<rparr>,
       \<lparr>URL = Some \<lparr>Path = ''/api''\<rparr>, Header = Map.empty\<rparr>,
       \<lparr>URL = Some \<lparr>Path = ''/''\<rparr>, Header = [''User-Agent'' \<mapsto> [''kube-probe/1.27'']]\<rparr>]"]
  have "requestCount (handleRequests \<lparr>requestCount = 7, ignoredPaths = {''/metrics''}\<rparr>
      [\<lparr>URL = Some \<lparr>Path = ''/metrics''\<rparr>, Header = Map.empty\<rparr>,
       \<lparr>URL = Some \<lparr>Path = ''/api''\<rparr>, Header = Map.empty\<rparr>,
       \<lparr>URL = Some \<lparr>Path = ''/''\<rparr>, Header = [''User-Agent'' \<mapsto> [''kube-probe/1.27'']]\<rparr>])
     = requestCount \<lparr>requestCount = 7, ignoredPaths = {''/metrics''}\<rparr>
       + of_nat (countedRequests \<lparr>requestCount = 7, ignoredPaths = {''/metrics''}\<rparr>
      [\<lparr>URL = Some \<lparr>Path = ''/metrics''\<rparr>, Header = Map.empty\<rparr>,
       \<lparr>URL = Some \<lparr>Path = ''/api''\<rparr>, Header = Map.empty\<rparr>,
       \<lparr>URL = Some \<lparr>Path = ''/''\<rparr>, Header = [''User-Agent'' \<mapsto> [''kube-probe/1.27'']]\<rparr>])"
    by (rule conjunct1)
  then show ?thesis unfolding c by simp
qed

section \<open>Properties of splitting and lower-casing\<close>

lemma ToLower_example: "ToLower ''DeployMent-9'' = ''deployment-9''"
  by (simp add: ToLower_def toLowerByte_def)

lemma Split_example: "Split ''a,,b:c,'' (CHR '','') = [''a'', '''', ''b:c'', '''']"
  by simp

lemma Split_empty: "Split '''' (CHR '','') = ['''']"
  by simp

lemma SplitN2_example:
  "SplitN2 ''deployment:ns/db:x'' (CHR '':'') = [''deployment'', ''ns/db:x'']"
  by (simp add: SplitN2_def)

lemma SplitN2_no_separator: "SplitN2 ''deployment'' (CHR '':'') = [''deployment'']"
  by (simp add: SplitN2_def)

lemma Split_nonempty: "Split s sep \<noteq> []"
  by (induction s) (auto split: list.splits)

lemma Split_pieces: "piece \<in> set (Split s sep) \<Longrightarrow> sep \<notin> set piece"
  by (induction s arbitrary: piece) (auto split: list.splits if_splits)

lemma Split_join: "concat (map (\<lambda>p. sep # p) (Split s sep)) = sep # s"
  by (induction s) (auto split: list.splits simp: Split_nonempty)

section \<open>Scaling to zero: claim C7\<close>

lemma patchTargets_append: "patchTargets (tr @ tr') = patchTargets tr @ patchTargets tr'"
  by (induction tr rule: patchTargets.induct) auto

lemma patchBodies_append: "patchBodies (tr @ tr') = patchBodies tr @ patchBodies tr'"
  by (induction tr rule: patchBodies.induct) auto

lemma failuresLogged_snoc:
  "failuresLogged tr \<Longrightarrow> \<not> failedPatch e \<Longrightarrow> failuresLogged (tr @ [e])"
  by (induction tr rule: failuresLogged.induct) (auto split: if_splits)

lemma failuresLogged_snoc2:
  "failuresLogged tr \<Longrightarrow> isErrorf e' \<Longrightarrow> failuresLogged (tr @ [e, e'])"
  by (induction tr rule: failuresLogged.induct) (auto split: if_splits elim: isErrorf.elims)

lemma isErrorf_not_failedPatch: "isErrorf e \<Longrightarrow> \<not> failedPatch e"
  by (cases e) auto

lemma scaleToZero_targets:
  "patchTargets (scaleToZero kc tr kind namespace name)
     = patchTargets tr @ kindTarget kind namespace name"
  by (simp add: scaleToZero_def kindTarget_def Let_def patchTargets_append)

lemma scaleToZero_bodies:
  "set (patchBodies (scaleToZero kc tr kind namespace name))
     \<subseteq> set (patchBodies tr)
        \<union> {[\<lparr>Op = ''replace'', PatchPath = ''/spec/replicas'', PatchValue = 0\<rparr>]}"
  by (auto simp: scaleToZero_def Let_def patchBodies_append)

lemma scaleToZero_prefix: "prefix tr (scaleToZero kc tr kind namespace name)"
  by (simp add: scaleToZero_def Let_def)

lemma scaleToZero_logged:
  "failuresLogged tr \<Longrightarrow> failuresLogged (scaleToZero kc tr kind namespace name)"
proof -
  assume a: "failuresLogged tr"
  let ?i = "Infof ''Scale to zero starting for %s %s in namespace %s'' [kind, name, namespace]"
  have b: "failuresLogged (tr @ [?i])" using a by (rule failuresLogged_snoc) simp
  have c: "\<And>e e'. isErrorf e' \<Longrightarrow> failuresLogged ((tr @ [?i]) @ [e, e'])"
    using b by (rule failuresLogged_snoc2)
  have d: "\<And>e e'. \<not> failedPatch e \<Longrightarrow> \<not> failedPatch e' \<Longrightarrow>
             failuresLogged (((tr @ [?i]) @ [e]) @ [e'])"
    using b by (meson failuresLogged_snoc)
  have e: "\<And>e. isErrorf e \<Longrightarrow> failuresLogged ((tr @ [?i]) @ [e])"
    using b by (meson failuresLogged_snoc isErrorf_not_failedPatch)
  show ?thesis
    using c d e by (simp add: scaleToZero_def Let_def)
qed

lemma scaleDependencies_targets:
  "patchTargets tr = patchTargets tr' \<Longrightarrow>
   patchTargets (fst (scaleDependencies kc deps tr))
     = patchTargets (fst (scaleDependencies kc' deps tr'))
   \<and> snd (scaleDependencies kc deps tr) = snd (scaleDependencies kc' deps tr')"
proof (induction deps arbitrary: tr tr')
  case Nil
  then show ?case by simp
next
  case (Cons dependency rest)
  have step: "\<And>k n m. patchTargets (scaleToZero kc tr k n m)
                 = patchTargets (scaleToZero kc' tr' k n m)"
    using Cons.prems by (simp add: scaleToZero_targets)
  show ?case
    using Cons.prems Cons.IH[OF Cons.prems] Cons.IH[OF step]
    by (simp add: Let_def)
qed

lemma scaleDependencies_prefix: "prefix tr (fst (scaleDependencies kc deps tr))"
proof (induction deps arbitrary: tr)
  case Nil
  then show ?case by simp
next
  case (Cons dependency rest)
  have "\<And>k n m. prefix tr (fst (scaleDependencies kc rest (scaleToZero kc tr k n m)))"
    using Cons.IH scaleToZero_prefix by (meson prefix_order.order_trans)
  with Cons.IH show ?case by (simp add: Let_def)
qed

lemma scaleDependencies_logged:
  "failuresLogged tr \<Longrightarrow> failuresLogged (fst (scaleDependencies kc deps tr))"
proof (induction deps arbitrary: tr)
  case Nil
  then show ?case by simp
next
  case (Cons dependency rest)
  have "\<And>k n m. failuresLogged (fst (scaleDependencies kc rest (scaleToZero kc tr k n m)))"
    using Cons.IH Cons.prems scaleToZero_logged by blast
  with Cons show ?case by (simp add: Let_def)
qed

lemma scaleDependencies_bodies:
  "set (patchBodies tr) \<subseteq> B \<Longrightarrow>
   [\<lparr>Op = ''replace'', PatchPath = ''/spec/replicas'', PatchValue = 0\<rparr>] \<in> B \<Longrightarrow>
   set (patchBodies (fst (scaleDependencies kc deps tr))) \<subseteq> B"
proof (induction deps arbitrary: tr)
  case Nil
  then show ?case by simp
next
  case (Cons dependency rest)
  have "\<And>k n m. set (patchBodies (scaleToZero kc tr k n m)) \<subseteq> B"
    using scaleToZero_bodies[of kc tr] Cons.prems by blast
  then have "\<And>k n m. set (patchBodies (fst (scaleDependencies kc rest (scaleToZero kc tr k n m)))) \<subseteq> B"
    using Cons.IH Cons.prems(2) by blast
  with Cons show ?case by (simp add: Let_def)
qed

lemma retrieveDependencies_quiet:
  "patchTargets (fst (retrieveDependencies kc config)) = []
   \<and> patchBodies (fst (retrieveDependencies kc config)) = []"
  by (simp add: retrieveDependencies_def split: option.splits)

lemma retrieveDependencies_logged:
  "failuresLogged tr \<Longrightarrow> failuresLogged (tr @ fst (retrieveDependencies kc config))"
  by (simp add: retrieveDependencies_def failuresLogged_snoc failuresLogged_snoc2
      split: option.splits)

lemma retrieveDependencies_patchOK:
  "retrieveDependencies (kc\<lparr>patchOK := ok'\<rparr>) config = retrieveDependencies kc config"
  by (simp add: retrieveDependencies_def)

lemma collectorScaleToZero_targets:
  "patchTargets (fst (collectorScaleToZero (kc\<lparr>patchOK := ok'\<rparr>) config []))
     = patchTargets (fst (collectorScaleToZero kc config []))
   \<and> snd (collectorScaleToZero (kc\<lparr>patchOK := ok'\<rparr>) config [])
     = snd (collectorScaleToZero kc config [])"
proof -
  let ?kc' = "kc\<lparr>patchOK := ok'\<rparr>"
  obtain evs v where r: "retrieveDependencies kc config = (evs, v)"
    by (cases "retrieveDependencies kc config")
  then have r': "retrieveDependencies ?kc' config = (evs, v)"
    by (simp add: retrieveDependencies_patchOK)
  have main: "patchTargets (scaleToZero ?kc' [] (appKind config) (appNamespace config) (appName config) @ evs)
     = patchTargets (scaleToZero kc [] (appKind config) (appNamespace config) (appName config) @ evs)"
    by (simp add: scaleToZero_targets patchTargets_append)
  show ?thesis
  proof (cases v)
    case None
    with r r' main show ?thesis by (simp add: collectorScaleToZero_def)
  next
    case (Some d)
    with r r' scaleDependencies_targets[OF main, where kc = ?kc' and kc' = kc]
    show ?thesis by (simp add: collectorScaleToZero_def)
  qed
qed

lemma collectorScaleToZero_main_first:
  "prefix (scaleToZero kc [] (appKind config) (appNamespace config) (appName config))
     (fst (collectorScaleToZero kc config []))"
proof -
  let ?tr1 = "scaleToZero kc [] (appKind config) (appNamespace config) (appName config)"
  obtain evs v where r: "retrieveDependencies kc config = (evs, v)"
    by (cases "retrieveDependencies kc config")
  have p: "\<And>deps. prefix ?tr1 (fst (scaleDependencies kc deps (?tr1 @ evs)))"
    by (meson prefixI prefix_order.order_trans scaleDependencies_prefix)
  show ?thesis
    using r p by (cases v) (simp_all add: collectorScaleToZero_def)
qed

lemma collectorScaleToZero_logged:
  "failuresLogged (fst (collectorScaleToZero kc config []))"
proof -
  let ?tr1 = "scaleToZero kc [] (appKind config) (appNamespace config) (appName config)"
  obtain evs v where r: "retrieveDependencies kc config = (evs, v)"
    by (cases "retrieveDependencies kc config")
  have "failuresLogged ?tr1" by (rule scaleToZero_logged) simp
  then have "failuresLogged (?tr1 @ fst (retrieveDependencies kc config))"
    by (rule retrieveDependencies_logged)
  with r have l: "failuresLogged (?tr1 @ evs)" by simp
  then have "\<And>deps. failuresLogged (fst (scaleDependencies kc deps (?tr1 @ evs)))"
    by (rule scaleDependencies_logged)
  with l r show ?thesis
    by (cases v) (simp_all add: collectorScaleToZero_def)
qed

lemma collectorScaleToZero_bodies:
  "set (patchBodies (fst (collectorScaleToZero kc config [])))
     \<subseteq> {[\<lparr>Op = ''replace'', PatchPath = ''/spec/replicas'', PatchValue = 0\<rparr>]}"
proof -
  let ?B = "{[\<lparr>Op = ''replace'', PatchPath = ''/spec/replicas'', PatchValue = 0\<rparr>]}"
  let ?tr1 = "scaleToZero kc [] (appKind config) (appNamespace config) (appName config)"
  obtain evs v where r: "retrieveDependencies kc config = (evs, v)"
    by (cases "retrieveDependencies kc config")
  have "patchBodies (fst (retrieveDependencies kc config)) = []"
    by (simp add: retrieveDependencies_quiet)
  with r have q: "patchBodies evs = []" by simp
  have "set (patchBodies ?tr1) \<subseteq> ?B"
    using scaleToZero_bodies[of kc "[]"] by simp
  with q have b: "set (patchBodies (?tr1 @ evs)) \<subseteq> ?B"
    by (simp add: patchBodies_append)
  then have "\<And>deps. set (patchBodies (fst (scaleDependencies kc deps (?tr1 @ evs)))) \<subseteq> ?B"
    by (rule scaleDependencies_bodies) simp
  with b r show ?thesis
    by (cases v) (simp_all add: collectorScaleToZero_def)
qed

lemma patchTargets_prefix: "prefix tr tr' \<Longrightarrow> prefix (patchTargets tr) (patchTargets tr')"
  by (auto simp: prefix_def patchTargets_append)

lemma collectorScaleToZero_first_patch:
  "(if mainTarget config = [] then patchTargets (fst (collectorScaleToZero kc config [])) = []
    else hd (patchTargets (fst (collectorScaleToZero kc config []))) = hd (mainTarget config))"
proof -
  let ?tr1 = "scaleToZero kc [] (appKind config) (appNamespace config) (appName config)"
  have t: "patchTargets ?tr1 = mainTarget config"
    by (simp add: scaleToZero_targets kindTarget_def mainTarget_def)
  show ?thesis
  proof (cases "mainTarget config = []")
    case True
    then have k: "ToLower (appKind config) \<noteq> ''deployment''"
      "ToLower (appKind config) \<noteq> ''statefulset''"
      by (auto simp: mainTarget_def split: if_splits)
    then have "retrieveDependencies kc config = ([], Some [])"
      by (simp add: retrieveDependencies_def)
    then have "collectorScaleToZero kc config [] = (?tr1, None)"
      by (simp add: collectorScaleToZero_def)
    with t True show ?thesis by simp
  next
    case False
    have "prefix (patchTargets ?tr1) (patchTargets (fst (collectorScaleToZero kc config [])))"
      using collectorScaleToZero_main_first by (rule patchTargets_prefix)
    with t obtain rest where
      "patchTargets (fst (collectorScaleToZero kc config [])) = mainTarget config @ rest"
      by (auto simp: prefix_def)
    with False show ?thesis by simp
  qed
qed

lemma scaleDependencies_exact:
  "patchTargets (fst (scaleDependencies kc deps tr))
     = patchTargets tr
       @ concat (map entryTarget (takeWhile wellFormedEntry (filter (\<lambda>d. d \<noteq> []) deps)))
   \<and> snd (scaleDependencies kc deps tr)
     = (if list_all wellFormedEntry (filter (\<lambda>d. d \<noteq> []) deps) then None
        else Some IndexOutOfRange)"
proof (induction deps arbitrary: tr)
  case Nil
  then show ?case by simp
next
  case (Cons d rest)
  show ?case
  proof (cases "d = []")
    case True
    with Cons.IH[of tr] show ?thesis by simp
  next
    case False
    show ?thesis
    proof (cases "wellFormedEntry d")
      case True
      then have c: "CHR '':'' \<in> set d" and s: "CHR ''/'' \<in> set (afterColon d)"
        by (simp_all add: wellFormedEntry_def)
      let ?tr' = "scaleToZero kc tr (takeWhile (\<lambda>c. c \<noteq> CHR '':'') d)
          (takeWhile (\<lambda>c. c \<noteq> CHR ''/'') (afterColon d))
          (drop 1 (dropWhile (\<lambda>c. c \<noteq> CHR ''/'') (afterColon d)))"
      have step: "scaleDependencies kc (d # rest) tr = scaleDependencies kc rest ?tr'"
        using False c s by (simp add: SplitN2_def afterColon_def Let_def)
      have t: "patchTargets ?tr' = patchTargets tr @ entryTarget d"
        by (simp add: scaleToZero_targets entryTarget_def)
      from Cons.IH[of ?tr'] step t True False show ?thesis by simp
    next
      case False
      note nwf = this
      have "scaleDependencies kc (d # rest) tr = (tr, Some IndexOutOfRange)"
      proof (cases "CHR '':'' \<in> set d")
        case True
        with nwf have "CHR ''/'' \<notin> set (afterColon d)" by (simp add: wellFormedEntry_def)
        with True \<open>d \<noteq> []\<close> show ?thesis
          by (simp add: SplitN2_def afterColon_def Let_def)
      next
        case False
        with \<open>d \<noteq> []\<close> show ?thesis by (simp add: SplitN2_def Let_def)
      qed
      with nwf \<open>d \<noteq> []\<close> show ?thesis by simp
    qed
  qed
qed

lemma collectorScaleToZero_exact:
  "patchTargets (fst (collectorScaleToZero kc config []))
     = mainTarget config
       @ (case snd (retrieveDependencies kc config) of
            None \<Rightarrow> []
          | Some v \<Rightarrow>
              concat (map entryTarget
                (takeWhile wellFormedEntry (filter (\<lambda>d. d \<noteq> []) (Split v (CHR '','')))))) 
   \<and> snd (collectorScaleToZero kc config [])
     = (case snd (retrieveDependencies kc config) of
          None \<Rightarrow> None
        | Some v \<Rightarrow>
            if list_all wellFormedEntry (filter (\<lambda>d. d \<noteq> []) (Split v (CHR '','')))
            then None else Some IndexOutOfRange)"
proof -
  let ?tr1 = "scaleToZero kc [] (appKind config) (appNamespace config) (appName config)"
  obtain evs v where r: "retrieveDependencies kc config = (evs, v)"
    by (cases "retrieveDependencies kc config")
  have "patchTargets (fst (retrieveDependencies kc config)) = []"
    by (simp add: retrieveDependencies_quiet)
  with r have q: "patchTargets evs = []" by simp
  have t: "patchTargets (?tr1 @ evs) = mainTarget config"
    using q by (simp add: patchTargets_append scaleToZero_targets kindTarget_def mainTarget_def)
  show ?thesis
  proof (cases v)
    case None
    with r t show ?thesis by (simp add: collectorScaleToZero_def)
  next
    case (Some d)
    with r t scaleDependencies_exact[of kc "Split d (CHR '','')" "?tr1 @ evs"]
    show ?thesis by (simp add: collectorScaleToZero_def)
  qed
qed

text \<open>
  C7: a scale-down starts with the call that patches the main workload, so that patch
  comes before every patch of a dependency: the first object patched is the main
  workload, and nothing is patched when its kind is neither deployment nor statefulset.
  After the main workload, one patch is sent for every declared dependency of a known
  kind, in the order of the annotation, up to the end of the annotation (or up to an
  entry that lacks a separator, where the method panics): the objects patched, their
  order and a panic, if any, are the same whatever the outcomes of the patches, so a
  failed patch stops nothing. Every failed patch is followed by an error log, and every
  patch sent is \<open>replace /spec/replicas 0\<close>.
\<close>

theorem main_workload_scaled_first:
  "prefix (scaleToZero kc [] (appKind config) (appNamespace config) (appName config))
     (fst (collectorScaleToZero kc config []))
   \<and> patchTargets (scaleToZero kc [] (appKind config) (appNamespace config) (appName config))
       = mainTarget config
   \<and> (if mainTarget config = []
      then patchTargets (fst (collectorScaleToZero kc config [])) = []
      else hd (patchTargets (fst (collectorScaleToZero kc config []))) = hd (mainTarget config))
   \<and> patchTargets (fst (collectorScaleToZero kc config []))
       = mainTarget config
         @ (case snd (retrieveDependencies kc config) of
              None \<Rightarrow> []
            | Some v \<Rightarrow>
                concat (map entryTarget
                  (takeWhile wellFormedEntry (filter (\<lambda>d. d \<noteq> []) (Split v (CHR '',''))))))
   \<and> snd (collectorScaleToZero kc config [])
       = (case snd (retrieveDependencies kc config) of
            None \<Rightarrow> None
          | Some v \<Rightarrow>
              if list_all wellFormedEntry (filter (\<lambda>d. d \<noteq> []) (Split v (CHR '','')))
              then None else Some IndexOutOfRange)
   \<and> (\<forall>ok'. patchTargets (fst (collectorScaleToZero (kc\<lparr>patchOK := ok'\<rparr>) config []))
              = patchTargets (fst (collectorScaleToZero kc config []))
            \<and> snd (collectorScaleToZero (kc\<lparr>patchOK := ok'\<rparr>) config [])
              = snd (collectorScaleToZero kc config []))
   \<and> failuresLogged (fst (collectorScaleToZero kc config []))
   \<and> set (patchBodies (fst (collectorScaleToZero kc config [])))
       \<subseteq> {[\<lparr>Op = ''replace'', PatchPath = ''/spec/replicas'', PatchValue = 0\<rparr>]}"
proof -
  have "patchTargets (scaleToZero kc [] (appKind config) (appNamespace config) (appName config))
       = mainTarget config"
    by (simp add: scaleToZero_targets kindTarget_def mainTarget_def)
  then show ?thesis
    using collectorScaleToZero_main_first collectorScaleToZero_first_patch
      collectorScaleToZero_exact[of kc config]
      collectorScaleToZero_targets collectorScaleToZero_logged collectorScaleToZero_bodies
    by blast
qed

lemma failingClient_run:
  "collectorScaleToZero failingClient appConfig [] =
     ([Infof ''Scale to zero starting for %s %s in namespace %s'' [''Deployment'', ''app'', ''ns''],
       Patch Deployments ''ns'' ''app''
         [\<lparr>Op = ''replace'', PatchPath = ''/spec/replicas'', PatchValue = 0\<rparr>] False,
       Errorf ''Error scaling %s %s in namespace %s to zero: %s'' [''Deployment'', ''app'', ''ns''],
       Get Deployments ''ns'' ''app'' True,
       Infof ''Scale to zero starting for %s %s in namespace %s'' [''deployment'', ''db'', ''ns''],
       Patch Deployments ''ns'' ''db''
         [\<lparr>Op = ''replace'', PatchPath = ''/spec/replicas'', PatchValue = 0\<rparr>] False,
       Errorf ''Error scaling %s %s in namespace %s to zero: %s'' [''deployment'', ''db'', ''ns''],
       Infof ''Scale to zero starting for %s %s in namespace %s'' [''statefulset'', ''cache'', ''ns''],
       Patch StatefulSets ''ns'' ''cache''
         [\<lparr>Op = ''replace'', PatchPath = ''/spec/replicas'', PatchValue = 0\<rparr>] True,
       Infof ''Scaled %s %s in namespace %s to zero'' [''statefulset'', ''cache'', ''ns'']],
      None)"
  by code_simp

lemma failingClient_declared:
  "mainTarget appConfig
     @ (case snd (retrieveDependencies failingClient appConfig) of
          None \<Rightarrow> []
        | Some v \<Rightarrow>
            concat (map entryTarget
              (takeWhile wellFormedEntry (filter (\<lambda>d. d \<noteq> []) (Split v (CHR '',''))))))
     = [(Deployments, ''ns'', ''app''), (Deployments, ''ns'', ''db''),
        (StatefulSets, ''ns'', ''cache'')]"
  by code_simp

text \<open>
  The patches of \<open>app\<close> and of \<open>db\<close> fail and are logged; \<open>db\<close> and \<open>cache\<close> are patched
  all the same, in this order, as they are when every patch succeeds.
\<close>

theorem main_workload_scaled_first_witness:
  "fst (collectorScaleToZero failingClient appConfig []) =
     [Infof ''Scale to zero starting for %s %s in namespace %s'' [''Deployment'', ''app'', ''ns''],
      Patch Deployments ''ns'' ''app''
        [\<lparr>Op = ''replace'', PatchPath = ''/spec/replicas'', PatchValue = 0\<rparr>] False,
      Errorf ''Error scaling %s %s in namespace %s to zero: %s'' [''Deployment'', ''app'', ''ns''],
      Get Deployments ''ns'' ''app'' True,
      Infof ''Scale to zero starting for %s %s in namespace %s'' [''deployment'', ''db'', ''ns''],
      Patch Deployments ''ns'' ''db''
        [\<lparr>Op = ''replace'', PatchPath = ''/spec/replicas'', PatchValue = 0\<rparr>] False,
      Errorf ''Error scaling %s %s in namespace %s to zero: %s'' [''deployment'', ''db'', ''ns''],
      Infof ''Scale to zero starting for %s %s in namespace %s'' [''statefulset'', ''cache'', ''ns''],
      Patch StatefulSets ''ns'' ''cache''
        [\<lparr>Op = ''replace'', PatchPath = ''/spec/replicas'', PatchValue = 0\<rparr>] True,
      Infof ''Scaled %s %s in namespace %s to zero'' [''statefulset'', ''cache'', ''ns'']]
   \<and> patchTargets (fst (collectorScaleToZero failingClient appConfig []))
     = [(Deployments, ''ns'', ''app''), (Deployments, ''ns'', ''db''),
        (StatefulSets, ''ns'', ''cache'')]
   \<and> patchTargets (fst (collectorScaleToZero
         (failingClient\<lparr>patchOK := (\<lambda>tr a namespace name. True)\<rparr>) appConfig []))
     = [(Deployments, ''ns'', ''app''), (Deployments, ''ns'', ''db''),
        (StatefulSets, ''ns'', ''cache'')]
   \<and> snd (collectorScaleToZero failingClient appConfig []) = None
   \<and> failuresLogged (fst (collectorScaleToZero failingClient appConfig []))"
proof -
  note c = main_workload_scaled_first[of failingClient appConfig]
  from c have "patchTargets (fst (collectorScaleToZero failingClient appConfig []))
       = mainTarget appConfig
         @ (case snd (retrieveDependencies failingClient appConfig) of
              None \<Rightarrow> []
            | Some v \<Rightarrow>
                concat (map entryTarget
                  (takeWhile wellFormedEntry (filter (\<lambda>d. d \<noteq> []) (Split v (CHR '',''))))))"
    by blast
  then have t: "patchTargets (fst (collectorScaleToZero failingClient appConfig []))
     = [(Deployments, ''ns'', ''app''), (Deployments, ''ns'', ''db''),
        (StatefulSets, ''ns'', ''cache'')]"
    unfolding failingClient_declared .
  from c have "patchTargets (fst (collectorScaleToZero
         (failingClient\<lparr>patchOK := (\<lambda>tr a namespace name. True)\<rparr>) appConfig []))
     = patchTargets (fst (collectorScaleToZero failingClient appConfig []))"
    by blast
  with t have t': "patchTargets (fst (collectorScaleToZero
         (failingClient\<lparr>patchOK := (\<lambda>tr a namespace name. True)\<rparr>) appConfig []))
     = [(Deployments, ''ns'', ''app''), (Deployments, ''ns'', ''db''),
        (StatefulSets, ''ns'', ''cache'')]"
    by simp
  from c have l: "failuresLogged (fst (collectorScaleToZero failingClient appConfig []))"
    by blast
  from t t' l show ?thesis by (simp add: failingClient_run)
qed

section \<open>The collector loop: claims C1 and C2\<close>

lemma collectScrapes_flag:
  "fst (collectScrapes scs (m, counts)) = (m \<or> None \<in> set scs)"
  by (induction scs "(m, counts)" arbitrary: m counts rule: collectScrapes.induct) auto





lemma tick_events:
  assumes "events (tick kc config c i) \<noteq> []"
  shows "None \<notin> set (scrapes i) \<and> \<not> timerFired i
     \<and> totalRequestCount (tick kc config c i) = lastTotalRequestCount c"
proof -
  obtain m counts where cs: "collectScrapes (scrapes i) (False, requestCountsByProxy c) = (m, counts)"
    by (cases "collectScrapes (scrapes i) (False, requestCountsByProxy c)")
  then have m: "m = (None \<in> set (scrapes i))"
    using collectScrapes_flag[of "scrapes i" False "requestCountsByProxy c"] by simp
  show ?thesis
  proof (cases "selectAfterScrapes i")
    case TimerC
    with assms cs show ?thesis by (simp add: tick_def Let_def)
  next
    case CtxDone
    with assms cs show ?thesis by (simp add: tick_def Let_def)
  next
    case Default
    then have "\<not> timerFired i" by (auto simp: selectAfterScrapes_def split: if_splits)
    with assms cs m Default show ?thesis
      by (auto simp: tick_def Let_def split: if_splits)
  qed
qed

lemma tick_lastTotal:
  "\<not> returned (tick kc config c i) \<Longrightarrow>
   lastTotalRequestCount (collectorAfter (tick kc config c i))
     = totalRequestCount (tick kc config c i)"
  by (auto simp: tick_def Let_def split: prod.splits if_splits)

lemma collectMetrics_length:
  "length (collectMetrics kc config c inputs) \<le> length inputs"
  by (induction inputs arbitrary: c) (auto simp: Let_def)

lemma patch_only_when_total_unchanged:
  assumes "k < length (collectMetrics kc config c inputs)"
    and "Patch a namespace name ops ok \<in> set (events (collectMetrics kc config c inputs ! k))"
  shows "None \<notin> set (scrapes (inputs ! k)) \<and> \<not> timerFired (inputs ! k)
     \<and> totalRequestCount (collectMetrics kc config c inputs ! k)
       = (if k = 0 then lastTotalRequestCount c
          else totalRequestCount (collectMetrics kc config c inputs ! (k - 1)))"
  using assms
proof (induction inputs arbitrary: c k)
  case Nil
  then show ?case by simp
next
  case (Cons i rest)
  let ?r = "tick kc config c i"
  show ?case
  proof (cases k)
    case 0
    with Cons.prems have "events ?r \<noteq> []"
      by (auto simp: Let_def split: if_splits)
    then have "None \<notin> set (scrapes i) \<and> \<not> timerFired i
       \<and> totalRequestCount ?r = lastTotalRequestCount c"
      by (rule tick_events)
    with 0 show ?thesis by (simp add: Let_def)
  next
    case (Suc k')
    with Cons.prems(1) have go: "\<not> (returned ?r \<or> panicked ?r \<noteq> None)"
      by (auto simp: Let_def split: if_splits)
    then have run: "collectMetrics kc config c (i # rest)
        = ?r # collectMetrics kc config (collectorAfter ?r) rest"
      by (simp add: Let_def)
    from Cons.prems Suc run
    have k': "k' < length (collectMetrics kc config (collectorAfter ?r) rest)"
      and p': "Patch a namespace name ops ok
        \<in> set (events (collectMetrics kc config (collectorAfter ?r) rest ! k'))"
      by simp_all
    from Cons.IH[OF k' p']
    have ih: "None \<notin> set (scrapes (rest ! k')) \<and> \<not> timerFired (rest ! k')
      \<and> totalRequestCount (collectMetrics kc config (collectorAfter ?r) rest ! k')
        = (if k' = 0 then lastTotalRequestCount (collectorAfter ?r)
           else totalRequestCount (collectMetrics kc config (collectorAfter ?r) rest ! (k' - 1)))" .
    from go have last: "lastTotalRequestCount (collectorAfter ?r) = totalRequestCount ?r"
      by (simp add: tick_lastTotal)
    show ?thesis
    proof (cases k')
      case 0
      with ih last Suc run show ?thesis by simp
    next
      case (Suc k'')
      with ih \<open>k = Suc k'\<close> run show ?thesis by simp
    qed
  qed
qed

lemma twoPods_run:
  "collectMetrics idleClient appConfig newCollector [twoPods, twoPods] =
     [\<lparr>collectorAfter = \<lparr>requestCountsByProxy = [(''A'', 17), (''B'', 5)],
                          lastTotalRequestCount = 22\<rparr>,
       totalRequestCount = 22, events = [], panicked = None, returned = False\<rparr>,
      \<lparr>collectorAfter = \<lparr>requestCountsByProxy = [(''A'', 17), (''B'', 5)],
                          lastTotalRequestCount = 22\<rparr>,
       totalRequestCount = 22,
       events =
         [Infof ''Scale to zero starting for %s %s in namespace %s'' [''Deployment'', ''app'', ''ns''],
          Patch Deployments ''ns'' ''app''
            [\<lparr>Op = ''replace'', PatchPath = ''/spec/replicas'', PatchValue = 0\<rparr>] True,
          Infof ''Scaled %s %s in namespace %s to zero'' [''Deployment'', ''app'', ''ns''],
          Get Deployments ''ns'' ''app'' True],
       panicked = None, returned = False\<rparr>]"
  by code_simp

lemma freshPod_run:
  "collectMetrics idleClient appConfig newCollector [freshPod] =
     [\<lparr>collectorAfter = \<lparr>requestCountsByProxy = [(''A'', 0)], lastTotalRequestCount = 0\<rparr>,
       totalRequestCount = 0,
       events =
         [Infof ''Scale to zero starting for %s %s in namespace %s'' [''Deployment'', ''app'', ''ns''],
          Patch Deployments ''ns'' ''app''
            [\<lparr>Op = ''replace'', PatchPath = ''/spec/replicas'', PatchValue = 0\<rparr>] True,
          Infof ''Scaled %s %s in namespace %s to zero'' [''Deployment'', ''app'', ''ns''],
          Get Deployments ''ns'' ''app'' True],
       panicked = None, returned = False\<rparr>]"
  by code_simp

text \<open>
  C1, as the specification states it: a patch is issued on a tick only if, among the
  rest, the total of the tick equals the total of the previous tick. On the first tick
  of the loop there is no previous tick; \<open>lastTotalRequestCount\<close> holds its zero value,
  and a pod that reports the count 0 has the workload patched on that very tick.
\<close>

theorem first_tick_scales_to_zero:
  "Patch Deployments ''ns'' ''app''
      [\<lparr>Op = ''replace'', PatchPath = ''/spec/replicas'', PatchValue = 0\<rparr>] True
     \<in> set (events (collectMetrics idleClient appConfig newCollector [freshPod] ! 0))
   \<and> \<not> specEqualsPreviousTotal (collectMetrics idleClient appConfig newCollector [freshPod]) 0"
  unfolding freshPod_run by (simp add: specEqualsPreviousTotal_def)

text \<open>
  C1, amended: in every run of the collector loop, a patch is issued on tick \<open>k\<close> only
  if no scrape of that tick returned nil, the three-second timer had not fired, and the
  total computed on that tick equals the total of the tick before or, on the first tick
  of the loop, equals 0.
\<close>

theorem scale_to_zero_only_when_idle:
  assumes "k < length (collectMetrics kc config newCollector inputs)"
    and "Patch a namespace name ops ok
           \<in> set (events (collectMetrics kc config newCollector inputs ! k))"
  shows "None \<notin> set (scrapes (inputs ! k)) \<and> \<not> timerFired (inputs ! k)
     \<and> totalRequestCount (collectMetrics kc config newCollector inputs ! k)
       = (if k = 0 then 0
          else totalRequestCount (collectMetrics kc config newCollector inputs ! (k - 1)))"
proof -
  have "lastTotalRequestCount newCollector = 0" by (simp add: newCollector_def)
  with patch_only_when_total_unchanged[OF assms] show ?thesis by simp
qed

text \<open>
  Scenario 3 of the specification: two pods report 17 and 5 on two ticks in a row; the
  first tick issues nothing, the second patches the workload. And a first tick on which
  the only pod reports 0 patches the workload.
\<close>

theorem scale_to_zero_only_when_idle_witness:
  "1 < length (collectMetrics idleClient appConfig newCollector [twoPods, twoPods])
   \<and> Patch Deployments ''ns'' ''app''
        [\<lparr>Op = ''replace'', PatchPath = ''/spec/replicas'', PatchValue = 0\<rparr>] True
       \<in> set (events (collectMetrics idleClient appConfig newCollector [twoPods, twoPods] ! 1))
   \<and> None \<notin> set (scrapes ([twoPods, twoPods] ! 1))
   \<and> \<not> timerFired ([twoPods, twoPods] ! 1)
   \<and> totalRequestCount (collectMetrics idleClient appConfig newCollector [twoPods, twoPods] ! 1)
       = totalRequestCount (collectMetrics idleClient appConfig newCollector [twoPods, twoPods] ! 0)
   \<and> events (collectMetrics idleClient appConfig newCollector [twoPods, twoPods] ! 0) = []
   \<and> 0 < length (collectMetrics idleClient appConfig newCollector [freshPod])
   \<and> Patch Deployments ''ns'' ''app''
        [\<lparr>Op = ''replace'', PatchPath = ''/spec/replicas'', PatchValue = 0\<rparr>] True
       \<in> set (events (collectMetrics idleClient appConfig newCollector [freshPod] ! 0))
   \<and> None \<notin> set (scrapes ([freshPod] ! 0))
   \<and> \<not> timerFired ([freshPod] ! 0)
   \<and> totalRequestCount (collectMetrics idleClient appConfig newCollector [freshPod] ! 0) = 0"
proof -
  have l: "1 < length (collectMetrics idleClient appConfig newCollector [twoPods, twoPods])"
    unfolding twoPods_run by simp
  have p: "Patch Deployments ''ns'' ''app''
        [\<lparr>Op = ''replace'', PatchPath = ''/spec/replicas'', PatchValue = 0\<rparr>] True
       \<in> set (events (collectMetrics idleClient appConfig newCollector [twoPods, twoPods] ! 1))"
    unfolding twoPods_run by simp
  have e: "events (collectMetrics idleClient appConfig newCollector [twoPods, twoPods] ! 0) = []"
    unfolding twoPods_run by simp
  have l0: "0 < length (collectMetrics idleClient appConfig newCollector [freshPod])"
    unfolding freshPod_run by simp
  have p0: "Patch Deployments ''ns'' ''app''
        [\<lparr>Op = ''replace'', PatchPath = ''/spec/replicas'', PatchValue = 0\<rparr>] True
       \<in> set (events (collectMetrics idleClient appConfig newCollector [freshPod] ! 0))"
    unfolding freshPod_run by simp
  from scale_to_zero_only_when_idle[OF l p] scale_to_zero_only_when_idle[OF l0 p0] l p e l0 p0
  show ?thesis
    by (simp del: collectMetrics.simps)
qed




section \<open>The host index: claims C3, C4 and C10\<close>

lemma showInt_examples:
  "showInt 8080 = ''8080''" "showInt (-5) = ''-5''" "showInt 0 = ''0''" "showInt 65535 = ''65535''"
  by code_simp+

lemma matchesNumbered_examples:
  "matchesNumbered ''abc'' ''abc''" "matchesNumbered ''abc'' ''abc-12''"
  "\<not> matchesNumbered ''abc'' ''abc-''" "\<not> matchesNumbered ''abc'' ''abc-1x''"
  "\<not> matchesNumbered ''abc'' ''abcd''"
  by code_simp+

lemma dom_setAll: "dom (setAll ks app m) = set ks \<union> dom m"
  by (induction ks arbitrary: m) auto

lemma dom_indexPort:
  "dom (indexPort f a svc name kind deps (ingressDefaultPortOf svc) port m)
     = dom m \<union> (if f (targetOf svc port) then {} else portHosts a svc port)"
  by (auto simp: indexPort_def targetOf_def portHosts_def Let_def dom_setAll)

lemma dom_fold_indexPort:
  "dom (fold (indexPort f a svc name kind deps (ingressDefaultPortOf svc)) ports m)
     = dom m \<union> \<Union> ((\<lambda>port. if f (targetOf svc port) then {} else portHosts a svc port)
                  ` set ports)"
proof (induction ports arbitrary: m)
  case Nil
  then show ?case by simp
next
  case (Cons port ports)
  show ?case
    unfolding fold_Cons comp_apply Cons.IH dom_indexPort by auto
qed

lemma indexService_unbound:
  "fst (resolveWorkload a svc) = [] \<Longrightarrow> indexService f a svc m = Inr m"
  by (cases "resolveWorkload a svc") (simp add: indexService_def)

lemma dom_indexService:
  assumes "indexService f a svc m = Inr m'"
  shows "dom m' = dom m \<union> serviceHosts f a svc"
proof (cases "fst (resolveWorkload a svc) = []")
  case True
  with assms show ?thesis by (simp add: indexService_unbound serviceHosts_def)
next
  case False
  obtain name kind v where r: "resolveWorkload a svc = (name, kind, v)"
    by (cases "resolveWorkload a svc")
  with False have n: "name \<noteq> []" by simp
  from assms r n obtain deps logged where
    "m' = fold (indexPort f a svc name kind deps (ingressDefaultPortOf svc)) (Ports svc) m"
    by (auto simp: indexService_def split: sum.splits)
  then show ?thesis
    using False by (simp add: dom_fold_indexPort serviceHosts_def)
qed

lemma dom_indexServices:
  "indexServices f a svcs m = Inr m' \<Longrightarrow>
   dom m' = dom m \<union> \<Union> (serviceHosts f a ` set svcs)"
proof (induction svcs arbitrary: m)
  case Nil
  then show ?case by simp
next
  case (Cons svc svcs)
  from Cons.prems obtain m1 where s: "indexService f a svc m = Inr m1"
    and rest: "indexServices f a svcs m1 = Inr m'"
    by (auto split: sum.splits)
  from Cons.IH[OF rest] dom_indexService[OF s] show ?case by auto
qed

lemma dom_updateIndex:
  "updateIndex f a = Inr a' \<Longrightarrow>
   dom (appsByHost a') = \<Union> (serviceHosts f a ` set (services a))"
proof -
  assume "updateIndex f a = Inr a'"
  then obtain m where m: "indexServices f a (services a) Map.empty = Inr m"
    and a': "a' = a\<lparr>appsByHost := m\<rparr>"
    by (auto simp: updateIndex_def split: sum.splits)
  from dom_indexServices[OF m] a' show ?thesis by simp
qed

lemma indexServices_append:
  "indexServices f a (pre @ post) m =
     (case indexServices f a pre m of Inl p \<Rightarrow> Inl p | Inr m' \<Rightarrow> indexServices f a post m')"
  by (induction pre arbitrary: m) (auto split: sum.splits)

text \<open>
  C3: parsing the dependencies annotation is said never to fail. An entry whose kind is
  unknown is reported and skipped, but an entry with a known kind and no colon, or with
  no slash after the colon, makes \<^verbatim>\<open>elems[1]\<close> panic: the annotation \<open>deployment\<close>
  on the deployment of a service ends \<open>updateIndex\<close> with a panic.
\<close>

theorem dependency_without_separator_panics:
  "parseDependencies (Split ''deployment'' (CHR '','')) ([], []) = Inl IndexOutOfRange
   \<and> parseDependencies (Split ''statefulset:db'' (CHR '','')) ([], []) = Inl IndexOutOfRange
   \<and> parseDependencies (Split ''job:ns/x,,Deployment:ns/db'' (CHR '','')) ([], [])
       = Inr ([App ''ns'' ''db'' ''db'' appKindDeployment [] None], [''job:ns/x''])
   \<and> updateIndex neverFails brokenActivator = Inl IndexOutOfRange"
proof -
  have p: "parseDependencies (Split ''deployment'' (CHR '','')) ([], []) = Inl IndexOutOfRange
   \<and> parseDependencies (Split ''statefulset:db'' (CHR '','')) ([], []) = Inl IndexOutOfRange
   \<and> parseDependencies (Split ''job:ns/x,,Deployment:ns/db'' (CHR '','')) ([], [])
       = Inr ([App ''ns'' ''db'' ''db'' appKindDeployment [] None], [''job:ns/x''])"
    by code_simp
  have "isl (updateIndex neverFails brokenActivator)"
    by code_simp
  then obtain e where "updateIndex neverFails brokenActivator = Inl e"
    by (cases "updateIndex neverFails brokenActivator") auto
  then have "updateIndex neverFails brokenActivator = Inl IndexOutOfRange"
    by (cases e) simp
  with p show ?thesis by simp
qed

text \<open>
  C4, as the specification states it: every DNS form, the cluster IP, every ingress IP
  and every hostname annotation is registered with the port suffix, and bare when the
  port is 80 or the ingress default port. For a service whose only port, 8080, is the
  ingress default port, the DNS name, the cluster IP and the ingress IP are in the index
  with the suffix and not bare, and the ingress hostname is in it bare and not with the
  suffix.
\<close>

theorem default_port_hosts_not_bare:
  "showInt 8080 = ingressDefaultPortOf webService
   \<and> registered (updateIndex neverFails webActivator) ''web.default:8080''
   \<and> \<not> registered (updateIndex neverFails webActivator) ''web.default''
   \<and> \<not> registered (updateIndex neverFails webActivator) ''10.0.0.1''
   \<and> \<not> registered (updateIndex neverFails webActivator) ''192.0.2.7''
   \<and> registered (updateIndex neverFails webActivator) ''web.example.com''
   \<and> \<not> registered (updateIndex neverFails webActivator) ''web.example.com:8080''"
  by code_simp

text \<open>
  C4, amended: when \<open>updateIndex\<close> completes, then for every service bound to a workload
  and every port of it whose target URL parses, the four DNS forms, the cluster IP, every
  non-empty load-balancer ingress IP and every \<open>loadBalancerHostname\<close> annotation value
  are keys of the index with the suffix \<open>:port\<close>, and bare when the port is 80; every
  \<open>ingressHostname\<close> annotation value is a key, bare, when the port is the ingress
  default port; and every node address with the suffix \<open>:nodePort\<close> is a key when the
  node port is not 0.
\<close>

theorem hosts_registered_for_port:
  assumes "updateIndex urlParseFails a = Inr a'"
    and "svc \<in> set (services a)"
    and "fst (resolveWorkload a svc) \<noteq> []"
    and "port \<in> set (Ports svc)"
    and "\<not> urlParseFails (''http://'' @ ClusterIP svc @ '':'' @ showInt (Port port))"
  shows "(\<forall>host \<in> set (svcDNSNames svc) \<union> {ClusterIP svc}
                  \<union> {ip \<in> set (IngressIPs svc). ip \<noteq> []}
                  \<union> set (hostnames loadBalancerHostnameAnnotationRegex svc).
            host @ '':'' @ showInt (Port port) \<in> dom (appsByHost a')
            \<and> (Port port = 80 \<longrightarrow> host \<in> dom (appsByHost a')))
     \<and> (showInt (Port port) = ingressDefaultPortOf svc \<longrightarrow>
          (\<forall>host \<in> set (hostnames ingressHostnameAnnotationRegex svc).
             host \<in> dom (appsByHost a')))
     \<and> (NodePort port \<noteq> 0 \<longrightarrow>
          (\<forall>nodeAddress \<in> set (nodeAddresses a).
             nodeAddress @ '':'' @ showInt (NodePort port) \<in> dom (appsByHost a')))"
proof -
  from assms(5) have t: "\<not> urlParseFails (targetOf svc port)" by (simp add: targetOf_def)
  from assms(2,3,4) t have "portHosts a svc port \<subseteq> serviceHosts urlParseFails a svc"
    by (auto simp: serviceHosts_def)
  with assms(2) dom_updateIndex[OF assms(1)]
  have sub: "portHosts a svc port \<subseteq> dom (appsByHost a')" by blast
  show ?thesis
    using sub unfolding portHosts_def Let_def withPort_def by (auto split: if_splits)
qed

theorem hosts_registered_for_port_witness:
  "shopService \<in> set (services shopActivator)
   \<and> fst (resolveWorkload shopActivator shopService) \<noteq> []
   \<and> \<lparr>PortName = ''web'', Port = 80, NodePort = 30080\<rparr> \<in> set (Ports shopService)
   \<and> \<not> neverFails (''http://'' @ ClusterIP shopService @ '':'' @ showInt 80)
   \<and> \<not> isl (updateIndex neverFails shopActivator)
   \<and> ingressDefaultPortOf shopService = showInt 80
   \<and> registered (updateIndex neverFails shopActivator) ''shop.default.svc.cluster.local:80''
   \<and> registered (updateIndex neverFails shopActivator) ''shop.default.svc.cluster.local''
   \<and> registered (updateIndex neverFails shopActivator) ''10.0.0.2:80''
   \<and> registered (updateIndex neverFails shopActivator) ''10.0.0.2''
   \<and> registered (updateIndex neverFails shopActivator) ''192.0.2.8:80''
   \<and> registered (updateIndex neverFails shopActivator) ''192.0.2.8''
   \<and> registered (updateIndex neverFails shopActivator) ''lb.example.com:80''
   \<and> registered (updateIndex neverFails shopActivator) ''lb.example.com''
   \<and> registered (updateIndex neverFails shopActivator) ''shop.example.com''
   \<and> registered (updateIndex neverFails shopActivator) ''node1:30080''"
proof -
  let ?port = "\<lparr>PortName = ''web'', Port = 80, NodePort = 30080\<rparr>"
  have h2: "shopService \<in> set (services shopActivator)"
    by (simp add: shopActivator_def)
  have "resolveWorkload shopActivator shopService = (''shop'', appKindDeployment, [])"
    by code_simp
  then have h3: "fst (resolveWorkload shopActivator shopService) \<noteq> []" by simp
  have h4: "?port \<in> set (Ports shopService)"
    by (simp add: shopService_def)
  have h5: "\<not> neverFails (''http://'' @ ClusterIP shopService @ '':'' @ showInt (Port ?port))"
    by (simp add: neverFails_def)
  have ok: "\<not> isl (updateIndex neverFails shopActivator)"
    by code_simp
  then obtain a' where h1: "updateIndex neverFails shopActivator = Inr a'"
    by (cases "updateIndex neverFails shopActivator") auto
  have dns: "''shop.default.svc.cluster.local'' \<in> set (svcDNSNames shopService)"
    by (simp add: svcDNSNames_def shopService_def)
  have ip: "''192.0.2.8'' \<in> {ip \<in> set (IngressIPs shopService). ip \<noteq> []}"
    by (simp add: shopService_def)
  have cip: "ClusterIP shopService = ''10.0.0.2''"
    by (simp add: shopService_def)
  have lb: "hostnames loadBalancerHostnameAnnotationRegex shopService = [''lb.example.com'']"
    by code_simp
  have ing: "hostnames ingressHostnameAnnotationRegex shopService = [''shop.example.com'']"
    by code_simp
  have idp: "ingressDefaultPortOf shopService = ''80''"
    by code_simp
  have s: "showInt 80 = ''80''" "showInt 30080 = ''30080''"
    by code_simp+
  have na: "nodeAddresses shopActivator = [''node1'']"
    by (simp add: shopActivator_def)
  note c = hosts_registered_for_port[OF h1 h2 h3 h4 h5]
  have p80: "Port ?port = 80" "NodePort ?port = 30080" by simp_all
  from c have B: "\<forall>host \<in> set (svcDNSNames shopService) \<union> {ClusterIP shopService}
                  \<union> {ip \<in> set (IngressIPs shopService). ip \<noteq> []}
                  \<union> set (hostnames loadBalancerHostnameAnnotationRegex shopService).
            host @ '':'' @ showInt (Port ?port) \<in> dom (appsByHost a')
            \<and> (Port ?port = 80 \<longrightarrow> host \<in> dom (appsByHost a'))"
    by (rule conjunct1)
  have b: "host @ '':80'' \<in> dom (appsByHost a') \<and> host \<in> dom (appsByHost a')"
    if "host \<in> set (svcDNSNames shopService) \<union> {ClusterIP shopService}
                  \<union> {ip \<in> set (IngressIPs shopService). ip \<noteq> []}
                  \<union> set (hostnames loadBalancerHostnameAnnotationRegex shopService)" for host
    using bspec[OF B that] unfolding p80 s by simp
  from c have I: "showInt (Port ?port) = ingressDefaultPortOf shopService \<longrightarrow>
          (\<forall>host \<in> set (hostnames ingressHostnameAnnotationRegex shopService).
             host \<in> dom (appsByHost a'))"
    by (rule conjunct1[OF conjunct2])
  from c have N: "NodePort ?port \<noteq> 0 \<longrightarrow>
          (\<forall>nodeAddress \<in> set (nodeAddresses shopActivator).
             nodeAddress @ '':'' @ showInt (NodePort ?port) \<in> dom (appsByHost a'))"
    by (rule conjunct2[OF conjunct2])
  have r1: "''shop.default.svc.cluster.local:80'' \<in> dom (appsByHost a')"
    "''shop.default.svc.cluster.local'' \<in> dom (appsByHost a')"
    using b[of "''shop.default.svc.cluster.local''"] dns by simp_all
  have r2: "''10.0.0.2:80'' \<in> dom (appsByHost a')" "''10.0.0.2'' \<in> dom (appsByHost a')"
    using b[of "''10.0.0.2''"] cip by simp_all
  have r3: "''192.0.2.8:80'' \<in> dom (appsByHost a')" "''192.0.2.8'' \<in> dom (appsByHost a')"
    using b[of "''192.0.2.8''"] ip by simp_all
  have r4: "''lb.example.com:80'' \<in> dom (appsByHost a')"
    "''lb.example.com'' \<in> dom (appsByHost a')"
    using b[of "''lb.example.com''"] lb by simp_all
  have r5: "''shop.example.com'' \<in> dom (appsByHost a')"
    using I unfolding p80 s idp ing by simp
  have r6: "''node1:30080'' \<in> dom (appsByHost a')"
    using N unfolding p80 s na by simp
  have reg: "\<And>h. registered (updateIndex neverFails shopActivator) h = (h \<in> dom (appsByHost a'))"
    by (auto simp: registered_def h1)
  show ?thesis
    using h2 h3 h4 h5 ok idp s r1 r2 r3 r4 r5 r6 unfolding reg by simp
qed

text \<open>
  C10: a service with neither a deployment nor a statefulset annotation, or whose
  binding annotation (the deployment one if present, else the statefulset one) cleans
  to the empty string, registers nothing: the loop body leaves the index as it is, and
  the loop gives the same result with the service taken out of the list.
\<close>

theorem unbound_service_registers_nothing:
  assumes "(map_of (Annotations svc) ''osiris.dm.gg/deployment'' = None
            \<and> map_of (Annotations svc) ''osiris.dm.gg/statefulset'' = None)
         \<or> (\<exists>v. map_of (Annotations svc) ''osiris.dm.gg/deployment'' = Some v
                \<and> cleanAnnotationValue v = [])
         \<or> (map_of (Annotations svc) ''osiris.dm.gg/deployment'' = None
            \<and> (\<exists>v. map_of (Annotations svc) ''osiris.dm.gg/statefulset'' = Some v
                    \<and> cleanAnnotationValue v = []))"
  shows "indexService urlParseFails a svc m = Inr m
     \<and> serviceHosts urlParseFails a svc = {}
     \<and> (\<forall>before after m0.
           indexServices urlParseFails a (before @ svc # after) m0
             = indexServices urlParseFails a (before @ after) m0)"
proof -
  from assms have n: "fst (resolveWorkload a svc) = []"
    by (auto simp: resolveWorkload_def Let_def)
  then have s: "\<And>m. indexService urlParseFails a svc m = Inr m"
    by (rule indexService_unbound)
  have "indexServices urlParseFails a (before @ svc # after) m0
          = indexServices urlParseFails a (before @ after) m0" for before after m0
    by (simp add: indexServices_append s split: sum.splits)
  with n s show ?thesis by (simp add: serviceHosts_def)
qed

theorem unbound_service_registers_nothing_witness:
  "(\<exists>v. map_of (Annotations unboundService) ''osiris.dm.gg/deployment'' = Some v
        \<and> cleanAnnotationValue v = [])
   \<and> map_of (Annotations unboundService) ''osiris.dm.gg/statefulset'' = Some ''db''
   \<and> indexService neverFails webActivator unboundService Map.empty = Inr Map.empty
   \<and> indexServices neverFails webActivator [webService, unboundService] Map.empty
       = indexServices neverFails webActivator [webService] Map.empty"
proof -
  have c: "cleanAnnotationValue [CHR 0x20, quote, quote, CHR 0x20] = []"
    by code_simp
  have d: "map_of (Annotations unboundService) ''osiris.dm.gg/deployment''
             = Some [CHR 0x20, quote, quote, CHR 0x20]"
    by (simp add: unboundService_def)
  from c d have h: "\<exists>v. map_of (Annotations unboundService) ''osiris.dm.gg/deployment'' = Some v
        \<and> cleanAnnotationValue v = []" by simp
  then have h': "(map_of (Annotations unboundService) ''osiris.dm.gg/deployment'' = None
            \<and> map_of (Annotations unboundService) ''osiris.dm.gg/statefulset'' = None)
         \<or> (\<exists>v. map_of (Annotations unboundService) ''osiris.dm.gg/deployment'' = Some v
                \<and> cleanAnnotationValue v = [])
         \<or> (map_of (Annotations unboundService) ''osiris.dm.gg/deployment'' = None
            \<and> (\<exists>v. map_of (Annotations unboundService) ''osiris.dm.gg/statefulset'' = Some v
                    \<and> cleanAnnotationValue v = []))" by blast
  have e: "map_of (Annotations unboundService) ''osiris.dm.gg/statefulset'' = Some ''db''"
    by (simp add: unboundService_def)
  note t = unbound_service_registers_nothing[OF h', of neverFails webActivator]
  from t have t1: "indexService neverFails webActivator unboundService Map.empty = Inr Map.empty"
    by blast
  from t have "indexServices neverFails webActivator ([webService] @ unboundService # []) Map.empty
       = indexServices neverFails webActivator ([webService] @ []) Map.empty"
    by blast
  then have t2: "indexServices neverFails webActivator [webService, unboundService] Map.empty
       = indexServices neverFails webActivator [webService] Map.empty"
    by simp
  from h e t1 t2 show ?thesis by blast
qed

end
